theory Spec2Isabelle
  imports Main "HOL-Library.Word"
begin

unbundle bit_operations_syntax

section \<open>Machine integers and the hash mixer\<close>

type_synonym u8 = "8 word"
type_synonym u32 = "32 word"
type_synonym u64 = "64 word"

text \<open>
  \<^verbatim>\<open>HashCombine\<close> (vk_pipeline_cache.cpp, lines 23-25). All operands are \<^verbatim>\<open>u64\<close>; the constant
  is an unsigned literal that is zero-extended.
\<close>

definition HashCombine :: "u64 \<Rightarrow> u64 \<Rightarrow> u64" where
  "HashCombine seed hash = seed XOR (hash + 0x9e3779b9 + push_bit 6 seed + drop_bit 2 seed)"

section \<open>Enumerations named by the file\<close>

text \<open>
  The enumerations are declared in headers outside this translation unit. Each datatype has
  the enumerators the file names and one constructor for every other value of the type.
\<close>

datatype VsOutput =
    VsOutput_None | PointSprite | EdgeFlag | KillFlag | GsCutFlag | GsMrtIndex | GsVpIndex
  | CullDist0 | CullDist1 | CullDist2 | CullDist3 | CullDist4 | CullDist5 | CullDist6 | CullDist7
  | ClipDist0 | ClipDist1 | ClipDist2 | ClipDist3 | ClipDist4 | ClipDist5 | ClipDist6 | ClipDist7

datatype Stage = Vertex | Fragment | Compute | Stage_Other nat

datatype PrimitiveType = PrimitiveType_None | PatchPrimitive | PrimitiveType_Other nat

datatype OperationMode = Disable | EliminateFastClear | FmaskDecompress | OperationMode_Other nat

datatype ClipSpace = MinusWToW | ClipSpace_Other nat

datatype ZFormat = ZFormat_Invalid | ZFormat_Other nat

datatype StencilFormat = StencilFormat_Invalid | StencilFormat_Other nat

datatype SwapMode = Standard | SwapMode_Other nat

datatype Format = eUndefined | Format_Other nat

type_synonym DataFormat = nat
type_synonym NumberFormat = nat
type_synonym PolygonMode = nat
type_synonym CullMode = nat
type_synonym FrontFace = nat
type_synonym StencilControl = u32

section \<open>The register snapshot\<close>

record VsOutputControl =
  use_vtx_point_size :: bool
  use_vtx_edge_flag :: bool
  use_vtx_gs_cut_flag :: bool
  use_vtx_kill_flag :: bool
  use_vtx_render_target_idx :: bool
  use_vtx_viewport_idx :: bool
  IsClipDistEnabled :: "nat \<Rightarrow> bool"
  IsCullDistEnabled :: "nat \<Rightarrow> bool"

record ProgramSettings =
  num_user_regs :: u32
  vgpr_comp_cnt :: u32
  num_vgprs :: u32

record BinaryInfo =
  Valid :: bool
  shader_hash :: u64

record ShaderParams =
  code :: "u32 list"
  hash :: u64

text \<open>
  A graphics program descriptor: its settings, the address \<^verbatim>\<open>Address()\<close> returns, and what
  \<^verbatim>\<open>Liverpool::GetBinaryInfo\<close> and \<^verbatim>\<open>Liverpool::GetParams\<close> read from guest memory at that
  address. Both readers are defined outside this file, so their results are part of the
  snapshot.
\<close>

record ShaderProgram =
  settings :: ProgramSettings
  Address :: u64
  GetBinaryInfo :: BinaryInfo
  GetParams :: ShaderParams

record ComputeProgram =
  cs_settings :: ProgramSettings
  num_thread_x :: u32
  num_thread_y :: u32
  num_thread_z :: u32
  IsTgidEnabled :: "nat \<Rightarrow> bool"
  SharedMemSize :: u32
  cs_GetParams :: ShaderParams

record PsInputControl =
  input_offset :: u32
  use_default :: u32
  flat_shade :: u32
  ps_default_value :: u32

record DepthControl =
  depth_enable :: bool
  depth_write_enable :: bool
  stencil_enable :: bool
  depth_control_rest :: u32

record PolygonControl =
  NeedsBias :: bool
  PolyMode :: PolygonMode
  CullingMode :: CullMode
  pc_front_face :: FrontFace

record DepthBuffer =
  z_info_format :: ZFormat
  stencil_info_format :: StencilFormat

text \<open>
  A colour buffer: \<^verbatim>\<open>operator bool\<close> (is a buffer bound to the slot), \<^verbatim>\<open>info.format\<close>,
  \<^verbatim>\<open>NumFormat()\<close>, \<^verbatim>\<open>info.comp_swap\<close> and \<^verbatim>\<open>info.blend_bypass\<close>.
\<close>

record ColorBuffer =
  cb_bound :: bool
  info_format :: DataFormat
  NumFormat :: NumberFormat
  info_comp_swap :: SwapMode
  info_blend_bypass :: bool

record BlendControl =
  enable :: bool
  blend_rest :: u32

text \<open>
  The fields of \<^verbatim>\<open>liverpool->regs\<close> that the file reads. Register arrays are read inside their
  bounds only, so they are functions of the index; \<^verbatim>\<open>color_target_mask\<close> and
  \<^verbatim>\<open>color_shader_mask\<close> stand for their \<^verbatim>\<open>GetMask\<close> accessor. Everything else of the register
  file lives in the extension slot of the record.
\<close>

record Regs =
  primitive_type :: PrimitiveType
  color_control_mode :: OperationMode
  depth_control :: DepthControl
  depth_clear_enable :: bool
  polygon_control :: PolygonControl
  depth_buffer :: DepthBuffer
  stencil_control :: StencilControl
  regs_enable_primitive_restart :: u32
  regs_primitive_restart_index :: u32
  clipper_control_clip_space :: ClipSpace
  aa_config_NumSamples :: u32
  color_buffers :: "nat \<Rightarrow> ColorBuffer"
  color_target_mask :: "nat \<Rightarrow> u32"
  color_shader_mask :: "nat \<Rightarrow> u32"
  blend_control :: "nat \<Rightarrow> BlendControl"
  IsStageEnabled :: "nat \<Rightarrow> bool"
  ProgramForStage :: "nat \<Rightarrow> ShaderProgram option"
  vs_program :: ShaderProgram
  ps_program :: ShaderProgram
  cs_program :: ComputeProgram
  vs_output_control :: VsOutputControl
  ps_inputs :: "nat \<Rightarrow> PsInputControl"
  num_interp :: u32

section \<open>Runtime info\<close>

type_synonym VsOutputMap = "VsOutput \<times> VsOutput \<times> VsOutput \<times> VsOutput"

record VertexRuntimeInfo =
  outputs :: "VsOutputMap list"
  emulate_depth_negative_one_to_one :: bool

record PsInput =
  param_index :: u8
  is_default :: bool
  is_flat :: bool
  default_value :: u8

record FragmentRuntimeInfo =
  fs_mrt_swizzles :: "SwapMode list"
  inputs :: "PsInput list"

record ComputeRuntimeInfo =
  workgroup_size :: "u32 \<times> u32 \<times> u32"
  tgid_enable :: "bool \<times> bool \<times> bool"
  shared_memory_size :: u32

record RuntimeInfo =
  ri_stage :: Stage
  num_user_data :: u32
  num_input_vgprs :: u32
  num_allocated_vgprs :: u32
  vs_info :: VertexRuntimeInfo
  fs_info :: FragmentRuntimeInfo
  cs_info :: ComputeRuntimeInfo

text \<open>\<^verbatim>\<open>GatherVertexOutputs\<close> (lines 36-79); \<^verbatim>\<open>add_output\<close> is its local lambda.\<close>

definition add_output ::
  "VsOutput \<Rightarrow> VsOutput \<Rightarrow> VsOutput \<Rightarrow> VsOutput \<Rightarrow> VertexRuntimeInfo \<Rightarrow> VertexRuntimeInfo" where
  "add_output x y z w info =
     (if x \<noteq> VsOutput_None \<or> y \<noteq> VsOutput_None \<or> z \<noteq> VsOutput_None \<or> w \<noteq> VsOutput_None
      then info\<lparr>outputs := outputs info @ [(x, y, z, w)]\<rparr>
      else info)"

definition clip_or_cull :: "VsOutputControl \<Rightarrow> nat \<Rightarrow> VsOutput \<Rightarrow> VsOutput \<Rightarrow> VsOutput" where
  "clip_or_cull ctl n clip cull =
     (if IsClipDistEnabled ctl n then clip
      else if IsCullDistEnabled ctl n then cull else VsOutput_None)"

definition GatherVertexOutputs :: "VertexRuntimeInfo \<Rightarrow> VsOutputControl \<Rightarrow> VertexRuntimeInfo" where
  "GatherVertexOutputs info ctl =
     (let info1 = add_output
            (if use_vtx_point_size ctl then PointSprite else VsOutput_None)
            (if use_vtx_edge_flag ctl then EdgeFlag
             else if use_vtx_gs_cut_flag ctl then GsCutFlag else VsOutput_None)
            (if use_vtx_kill_flag ctl then KillFlag
             else if use_vtx_render_target_idx ctl then GsMrtIndex else VsOutput_None)
            (if use_vtx_viewport_idx ctl then GsVpIndex else VsOutput_None) info;
          info2 = add_output
            (clip_or_cull ctl 0 ClipDist0 CullDist0) (clip_or_cull ctl 1 ClipDist1 CullDist1)
            (clip_or_cull ctl 2 ClipDist2 CullDist2) (clip_or_cull ctl 3 ClipDist3 CullDist3) info1
      in add_output
            (clip_or_cull ctl 4 ClipDist4 CullDist4) (clip_or_cull ctl 5 ClipDist5 CullDist5)
            (clip_or_cull ctl 6 ClipDist6 CullDist6) (clip_or_cull ctl 7 ClipDist7 CullDist7) info2)"

section \<open>The pipeline key and the cache object\<close>

text \<open>
  \<^verbatim>\<open>GraphicsPipelineKey\<close>, with the fields the file writes. Arrays are lists;
  \<^verbatim>\<open>cb_shader_mask\<close> holds one mask per target, written by \<^verbatim>\<open>SetMask\<close>.
\<close>

record GraphicsPipelineKey =
  stage_hashes :: "u64 list"
  color_formats :: "Format list"
  mrt_swizzles :: "SwapMode list"
  blend_controls :: "BlendControl list"
  write_masks :: "u32 list"
  cb_shader_mask :: "u32 list"
  mrt_mask :: u32
  depth_stencil :: DepthControl
  depth_bias_enable :: bool
  depth_format :: Format
  stencil :: StencilControl
  stencil_format :: Format
  prim_type :: PrimitiveType
  enable_primitive_restart :: u32
  primitive_restart_index :: u32
  polygon_mode :: PolygonMode
  cull_mode :: CullMode
  clip_space :: ClipSpace
  front_face :: FrontFace
  num_samples :: u32

text \<open>
  \<^verbatim>\<open>Shader::Info\<close>: the fields and the accessor the file reads, and one field for all the
  rest of the structure.
\<close>

record Info =
  info_stage :: Stage
  pgm_hash :: u64
  info_mrt_mask :: u32
  NumBindings :: u32
  info_rest :: nat

type_synonym ShaderModule = nat
type_synonym IRProgram = nat
type_synonym SpirvBinary = "u32 list"

text \<open>
  A specialization descriptor is compared with \<^verbatim>\<open>operator==\<close> only; it is a value whose
  equality is that comparison.
\<close>

type_synonym StageSpecialization = nat

record Module =
  module :: ShaderModule
  spec :: StageSpecialization

record Program =
  pgm_info :: Info
  pgm_modules :: "Module list"

record Profile =
  supported_spirv :: u32
  subgroup_size :: u32
  support_explicit_workgroup_layout :: bool

record Instance =
  ApiVersion :: u32
  SubgroupSize :: u32
  IsDepthClipControlSupported :: bool

record GraphicsPipeline =
  gp_key :: GraphicsPipelineKey
  gp_infos :: "Info option list"
  gp_modules :: "ShaderModule list"

record ComputePipeline =
  cp_key :: u64
  cp_info :: "Info option"
  cp_module :: ShaderModule

text \<open>
  The members of \<^verbatim>\<open>PipelineCache\<close>. A pipeline pointer is the index of the object in its pool;
  \<^verbatim>\<open>program_cache\<close> maps a content hash to the program the pool owns for it.
\<close>

record PipelineCache =
  vk_instance :: Instance
  profile :: Profile
  graphics_key :: GraphicsPipelineKey
  compute_key :: u64
  infos :: "Info option list"
  modules :: "ShaderModule list"
  program_cache :: "u64 \<rightharpoonup> Program"
  graphics_pipelines :: "GraphicsPipelineKey \<rightharpoonup> nat"
  graphics_pipeline_pool :: "GraphicsPipeline list"
  compute_pipelines :: "u64 \<rightharpoonup> nat"
  compute_pipeline_pool :: "ComputePipeline list"

text \<open>
  What the file takes from the rest of the build: constants and functions declared in other
  translation units, and the contents of the array \<^verbatim>\<open>skip_hashes\<close> of \<^verbatim>\<open>ShouldSkipShader\<close>,
  which the file leaves empty.
\<close>

record build =
  NumColorBuffers :: nat
  MaxShaderStages :: nat
  StageFromIndex :: "nat \<Rightarrow> Stage"
  Stage_u32 :: "Stage \<Rightarrow> nat"
  VK_API_VERSION_1_3 :: u32
  DepthFormat :: "ZFormat \<Rightarrow> StencilFormat \<Rightarrow> Format"
  SurfaceFormat :: "DataFormat \<Rightarrow> NumberFormat \<Rightarrow> Format"
  AdjustColorBufferFormat :: "Format \<Rightarrow> SwapMode \<Rightarrow> bool \<Rightarrow> Format"
  Info_new :: "Stage \<Rightarrow> ShaderParams \<Rightarrow> Info"
  TranslateProgram :: "u32 list \<Rightarrow> Info \<Rightarrow> RuntimeInfo \<Rightarrow> Profile \<Rightarrow> IRProgram \<times> Info"
  EmitSPIRV :: "Profile \<Rightarrow> RuntimeInfo \<Rightarrow> IRProgram \<Rightarrow> u32 \<Rightarrow> SpirvBinary \<times> u32"
  CompileSPV :: "SpirvBinary \<Rightarrow> ShaderModule"
  MakeSpecialization :: "Info \<Rightarrow> RuntimeInfo \<Rightarrow> u32 \<Rightarrow> StageSpecialization"
  skip_hashes :: "u64 list"

section \<open>Runtime-info extraction\<close>

text \<open>\<^verbatim>\<open>Shader::RuntimeInfo{stage}\<close>: every other member value-initialised.\<close>

definition RuntimeInfo_init :: "Stage \<Rightarrow> RuntimeInfo" where
  "RuntimeInfo_init stage =
     \<lparr>ri_stage = stage, num_user_data = 0, num_input_vgprs = 0, num_allocated_vgprs = 0,
      vs_info = \<lparr>outputs = [], emulate_depth_negative_one_to_one = False\<rparr>,
      fs_info = \<lparr>fs_mrt_swizzles = [], inputs = []\<rparr>,
      cs_info = \<lparr>workgroup_size = (0, 0, 0), tgid_enable = (False, False, False),
                 shared_memory_size = 0\<rparr>\<rparr>"

definition ps_input_of :: "PsInputControl \<Rightarrow> PsInput" where
  "ps_input_of c =
     \<lparr>param_index = ucast (input_offset c), is_default = (use_default c \<noteq> 0),
      is_flat = (flat_shade c \<noteq> 0), default_value = ucast (ps_default_value c)\<rparr>"

text \<open>\<^verbatim>\<open>PipelineCache::BuildRuntimeInfo\<close> (lines 81-128).\<close>

fun BuildRuntimeInfo :: "'a Regs_scheme \<Rightarrow> PipelineCache \<Rightarrow> Stage \<Rightarrow> RuntimeInfo" where
  "BuildRuntimeInfo regs c Vertex =
     (let info = RuntimeInfo_init Vertex
      in info\<lparr>num_user_data := num_user_regs (settings (vs_program regs)),
              num_input_vgprs := vgpr_comp_cnt (settings (vs_program regs)),
              num_allocated_vgprs := num_vgprs (settings (vs_program regs)) * 4,
              vs_info := (GatherVertexOutputs (vs_info info) (vs_output_control regs))
                \<lparr>emulate_depth_negative_one_to_one :=
                    (\<not> IsDepthClipControlSupported (vk_instance c) \<and>
                     clipper_control_clip_space regs = MinusWToW)\<rparr>\<rparr>)"
| "BuildRuntimeInfo regs c Fragment =
     (let info = RuntimeInfo_init Fragment
      in info\<lparr>num_user_data := num_user_regs (settings (ps_program regs)),
              num_allocated_vgprs := num_vgprs (settings (ps_program regs)) * 4,
              fs_info := \<lparr>fs_mrt_swizzles = mrt_swizzles (graphics_key c),
                          inputs = map (\<lambda>i. ps_input_of (ps_inputs regs i))
                                       [0 ..< unat (num_interp regs)]\<rparr>\<rparr>)"
| "BuildRuntimeInfo regs c Compute =
     (let info = RuntimeInfo_init Compute; cs_pgm = cs_program regs
      in info\<lparr>num_user_data := num_user_regs (cs_settings cs_pgm),
              num_allocated_vgprs := num_vgprs (cs_settings cs_pgm) * 4,
              cs_info := \<lparr>workgroup_size =
                            (num_thread_x cs_pgm, num_thread_y cs_pgm, num_thread_z cs_pgm),
                          tgid_enable =
                            (IsTgidEnabled cs_pgm 0, IsTgidEnabled cs_pgm 1, IsTgidEnabled cs_pgm 2),
                          shared_memory_size = SharedMemSize cs_pgm\<rparr>\<rparr>)"
| "BuildRuntimeInfo regs c (Stage_Other n) = RuntimeInfo_init (Stage_Other n)"

text \<open>
  The constructor (lines 130-140): the profile is fixed from the instance, every container is
  empty, the stage arrays hold null pointers and null handles.
\<close>

definition zero_key :: "build \<Rightarrow> GraphicsPipelineKey" where
  "zero_key B =
     \<lparr>stage_hashes = replicate (MaxShaderStages B) 0,
      color_formats = replicate (NumColorBuffers B) eUndefined,
      mrt_swizzles = replicate (NumColorBuffers B) Standard,
      blend_controls = replicate (NumColorBuffers B) \<lparr>enable = False, blend_rest = 0\<rparr>,
      write_masks = replicate (NumColorBuffers B) 0,
      cb_shader_mask = replicate (NumColorBuffers B) 0,
      mrt_mask = 0,
      depth_stencil = \<lparr>depth_enable = False, depth_write_enable = False,
                       stencil_enable = False, depth_control_rest = 0\<rparr>,
      depth_bias_enable = False, depth_format = eUndefined, stencil = 0,
      stencil_format = eUndefined, prim_type = PrimitiveType_Other 0,
      enable_primitive_restart = 0, primitive_restart_index = 0, polygon_mode = 0,
      cull_mode = 0, clip_space = ClipSpace_Other 0, front_face = 0, num_samples = 0\<rparr>"

definition PipelineCache_new :: "build \<Rightarrow> Instance \<Rightarrow> PipelineCache" where
  "PipelineCache_new B inst =
     \<lparr>vk_instance = inst,
      profile = \<lparr>supported_spirv =
                   (if VK_API_VERSION_1_3 B \<le> ApiVersion inst then 0x00010600 else 0x00010500),
                 subgroup_size = SubgroupSize inst,
                 support_explicit_workgroup_layout = True\<rparr>,
      graphics_key = zero_key B,
      compute_key = 0,
      infos = replicate (MaxShaderStages B) None,
      modules = replicate (MaxShaderStages B) 0,
      program_cache = Map.empty,
      graphics_pipelines = Map.empty,
      graphics_pipeline_pool = [],
      compute_pipelines = Map.empty,
      compute_pipeline_pool = []\<rparr>"

section \<open>The shader program cache\<close>

text \<open>
  \<^verbatim>\<open>PipelineCache::CompileModule\<close> (lines 365-385). The translator updates \<^verbatim>\<open>info\<close> and the
  emitter advances \<^verbatim>\<open>binding\<close>, both passed by reference, so both are returned. Logging,
  the optional shader dump and the debug name of the module are not modelled.
\<close>

definition CompileModule ::
  "build \<Rightarrow> PipelineCache \<Rightarrow> Info \<Rightarrow> RuntimeInfo \<Rightarrow> u32 list \<Rightarrow> nat \<Rightarrow> u32
     \<Rightarrow> ShaderModule \<times> Info \<times> u32" where
  "CompileModule B c info runtime_info bytecode perm_idx binding =
     (let (ir_program, info') = TranslateProgram B bytecode info runtime_info (profile c);
          (spv, binding') = EmitSPIRV B (profile c) runtime_info ir_program binding
      in (CompileSPV B spv, info', binding'))"

text \<open>\<^verbatim>\<open>std::ranges::find\<close> with the projection \<^verbatim>\<open>&Program::Module::spec\<close>: the first index.\<close>

fun find_spec :: "Module list \<Rightarrow> StageSpecialization \<Rightarrow> nat option" where
  "find_spec [] s = None"
| "find_spec (m # ms) s = (if spec m = s then Some 0 else map_option Suc (find_spec ms s))"

definition AddPermut :: "Program \<Rightarrow> ShaderModule \<Rightarrow> StageSpecialization \<Rightarrow> Program" where
  "AddPermut program modl sp =
     program\<lparr>pgm_modules := pgm_modules program @ [\<lparr>module = modl, spec = sp\<rparr>]\<rparr>"

text \<open>
  \<^verbatim>\<open>PipelineCache::GetProgram\<close> (lines 387-418). The result is the returned tuple, the value
  of \<^verbatim>\<open>binding\<close> after the call, and the cache. The permutation index is a \<^verbatim>\<open>size_t\<close>
  converted to \<^verbatim>\<open>u64\<close> for the hash.
\<close>

definition GetProgram ::
  "build \<Rightarrow> 'a Regs_scheme \<Rightarrow> Stage \<Rightarrow> ShaderParams \<Rightarrow> u32 \<Rightarrow> PipelineCache
     \<Rightarrow> (Info \<times> ShaderModule \<times> u64) \<times> u32 \<times> PipelineCache" where
  "GetProgram B regs stage params binding c =
     (let runtime_info = BuildRuntimeInfo regs c stage
      in case program_cache c (hash params) of
           None \<Rightarrow>
             (let info0 = Info_new B stage params;
                  start_binding = binding;
                  (modl, info1, binding') =
                     CompileModule B c info0 runtime_info (code params) 0 binding;
                  sp = MakeSpecialization B info1 runtime_info start_binding;
                  program = AddPermut \<lparr>pgm_info = info1, pgm_modules = []\<rparr> modl sp
              in ((info1, modl, HashCombine (hash params) 0), binding',
                  c\<lparr>program_cache := (program_cache c)(hash params \<mapsto> program)\<rparr>))
         | Some program \<Rightarrow>
             (let info = pgm_info program;
                  sp = MakeSpecialization B info runtime_info binding;
                  perm_idx = length (pgm_modules program)
              in case find_spec (pgm_modules program) sp of
                   None \<Rightarrow>
                     (let new_info = Info_new B stage params;
                          (modl, new_info', binding') =
                             CompileModule B c new_info runtime_info (code params) perm_idx binding
                      in ((info, modl, HashCombine (hash params) (word_of_nat perm_idx)),
                          binding',
                          c\<lparr>program_cache :=
                               (program_cache c)(hash params \<mapsto> AddPermut program modl sp)\<rparr>))
                 | Some idx \<Rightarrow>
                     ((info, module (pgm_modules program ! idx),
                       HashCombine (hash params) (word_of_nat idx)),
                      binding + NumBindings info, c)))"

section \<open>Key refresh\<close>

text \<open>
  \<^verbatim>\<open>ShouldSkipShader\<close> (lines 188-214): membership in the array \<^verbatim>\<open>skip_hashes\<close>. The array
  is a parameter of the model; the file as it stands declares it with no element.
\<close>

definition ShouldSkipShader :: "build \<Rightarrow> u64 \<Rightarrow> string \<Rightarrow> bool" where
  "ShouldSkipShader B shader_hash' shader_type = (shader_hash' \<in> set (skip_hashes B))"

text \<open>The build with the skip list as the file declares it.\<close>

definition this_build :: "build \<Rightarrow> build" where
  "this_build B = B\<lparr>skip_hashes := []\<rparr>"

datatype fault = NullPointerDereference

text \<open>Lines 217-254: the key is zeroed, then the fixed-function state is copied.\<close>

definition populate_fixed_state ::
  "build \<Rightarrow> 'a Regs_scheme \<Rightarrow> GraphicsPipelineKey \<Rightarrow> GraphicsPipelineKey" where
  "populate_fixed_state B regs key0 =
     (let key1 = key0\<lparr>depth_stencil := depth_control regs\<rparr>;
          key2 = key1\<lparr>depth_stencil := (depth_stencil key1)
                    \<lparr>depth_write_enable :=
                        (depth_write_enable (depth_control regs) \<and> \<not> depth_clear_enable regs)\<rparr>\<rparr>;
          key3 = key2\<lparr>depth_bias_enable := NeedsBias (polygon_control regs)\<rparr>;
          db = depth_buffer regs;
          ds_format = DepthFormat B (z_info_format db) (stencil_info_format db);
          key4 = (if z_info_format db \<noteq> ZFormat_Invalid
                  then key3\<lparr>depth_format := ds_format\<rparr>
                  else key3\<lparr>depth_format := eUndefined\<rparr>);
          key5 = (if depth_enable (depth_control regs)
                  then key4\<lparr>depth_stencil := (depth_stencil key4)
                         \<lparr>depth_enable := (depth_format key4 \<noteq> eUndefined)\<rparr>\<rparr>
                  else key4);
          key6 = key5\<lparr>stencil := stencil_control regs\<rparr>;
          key7 = (if stencil_info_format db \<noteq> StencilFormat_Invalid
                  then key6\<lparr>stencil_format := depth_format key6\<rparr>
                  else key6\<lparr>stencil_format := eUndefined\<rparr>);
          key8 = (if stencil_enable (depth_stencil key7)
                  then key7\<lparr>depth_stencil := (depth_stencil key7)
                         \<lparr>stencil_enable := (stencil_format key7 \<noteq> eUndefined)\<rparr>\<rparr>
                  else key7)
      in key8\<lparr>prim_type := primitive_type regs,
              enable_primitive_restart := regs_enable_primitive_restart regs AND 1,
              primitive_restart_index := regs_primitive_restart_index regs,
              polygon_mode := PolyMode (polygon_control regs),
              cull_mode := CullingMode (polygon_control regs),
              clip_space := clipper_control_clip_space regs,
              front_face := pc_front_face (polygon_control regs),
              num_samples := aa_config_NumSamples regs\<rparr>)"

text \<open>Lines 262-265.\<close>

definition fill_color_arrays :: "build \<Rightarrow> GraphicsPipelineKey \<Rightarrow> GraphicsPipelineKey" where
  "fill_color_arrays B key =
     key\<lparr>color_formats := replicate (NumColorBuffers B) eUndefined,
         blend_controls := replicate (NumColorBuffers B) \<lparr>enable = False, blend_rest = 0\<rparr>,
         write_masks := replicate (NumColorBuffers B) 0,
         mrt_swizzles := replicate (NumColorBuffers B) Standard\<rparr>"

text \<open>
  The first pass over the colour buffers (lines 269-284), as a recursion over the slots still
  to visit; \<^verbatim>\<open>remapped_cb\<close> is the loop's second counter. The result of
  \<^verbatim>\<open>IsVideoOutSurface\<close> is not used by the loop.
\<close>

fun first_pass ::
  "build \<Rightarrow> 'a Regs_scheme \<Rightarrow> bool \<Rightarrow> nat list \<Rightarrow> nat \<Rightarrow> GraphicsPipelineKey
     \<Rightarrow> GraphicsPipelineKey" where
  "first_pass B regs skip_cb_binding [] remapped_cb key = key"
| "first_pass B regs skip_cb_binding (cb # cbs) remapped_cb key =
     (let col_buf = color_buffers regs cb
      in if skip_cb_binding \<or> \<not> cb_bound col_buf \<or> color_target_mask regs cb = 0
         then first_pass B regs skip_cb_binding cbs remapped_cb key
         else
           (let base_format = SurfaceFormat B (info_format col_buf) (NumFormat col_buf);
                key1 = key\<lparr>color_formats := (color_formats key)
                          [remapped_cb :=
                             AdjustColorBufferFormat B base_format (info_comp_swap col_buf) False]\<rparr>;
                key2 = (if base_format = color_formats key1 ! remapped_cb
                        then key1\<lparr>mrt_swizzles := (mrt_swizzles key1)
                               [remapped_cb := info_comp_swap col_buf]\<rparr>
                        else key1)
            in first_pass B regs skip_cb_binding cbs (Suc remapped_cb) key2))"

text \<open>The second pass (lines 333-349).\<close>

fun second_pass ::
  "'a Regs_scheme \<Rightarrow> bool \<Rightarrow> nat list \<Rightarrow> nat \<Rightarrow> GraphicsPipelineKey \<Rightarrow> GraphicsPipelineKey" where
  "second_pass regs skip_cb_binding [] remapped_cb key = key"
| "second_pass regs skip_cb_binding (cb # cbs) remapped_cb key =
     (let col_buf = color_buffers regs cb
      in if skip_cb_binding \<or> \<not> cb_bound col_buf \<or> color_target_mask regs cb = 0 \<or>
            mrt_mask key AND push_bit cb 1 = 0
         then second_pass regs skip_cb_binding cbs remapped_cb
                (key\<lparr>color_formats := (color_formats key)[cb := eUndefined],
                     mrt_swizzles := (mrt_swizzles key)[cb := Standard]\<rparr>)
         else
           (let key1 = key\<lparr>blend_controls := (blend_controls key)
                          [remapped_cb := blend_control regs cb]\<rparr>;
                key2 = key1\<lparr>blend_controls := (blend_controls key1)
                          [remapped_cb := (blend_controls key1 ! remapped_cb)
                             \<lparr>enable := (enable (blend_controls key1 ! remapped_cb) \<and>
                                          \<not> info_blend_bypass col_buf)\<rparr>]\<rparr>;
                key3 = key2\<lparr>write_masks := (write_masks key2)
                          [remapped_cb := color_target_mask regs cb]\<rparr>;
                key4 = key3\<lparr>cb_shader_mask := (cb_shader_mask key3)
                          [remapped_cb := color_shader_mask regs cb]\<rparr>
            in second_pass regs skip_cb_binding cbs (Suc remapped_cb) key4))"

text \<open>
  One iteration of the stage loop (lines 287-327): the loop goes on with the new value of
  \<^verbatim>\<open>binding\<close>, or the function returns false, or the tessellation check reads through a null
  program pointer.
\<close>

datatype flow = Continue u32 PipelineCache | ReturnFalse PipelineCache | Crash

definition clear_stage :: "nat \<Rightarrow> PipelineCache \<Rightarrow> PipelineCache" where
  "clear_stage i c =
     c\<lparr>graphics_key := (graphics_key c)\<lparr>stage_hashes := (stage_hashes (graphics_key c))[i := 0]\<rparr>,
       infos := (infos c)[i := None]\<rparr>"

definition assign_stage ::
  "nat \<Rightarrow> Info \<times> ShaderModule \<times> u64 \<Rightarrow> PipelineCache \<Rightarrow> PipelineCache" where
  "assign_stage i r c =
     (case r of (info, modl, h) \<Rightarrow>
        c\<lparr>infos := (infos c)[i := Some info],
          modules := (modules c)[i := modl],
          graphics_key := (graphics_key c)
            \<lparr>stage_hashes := (stage_hashes (graphics_key c))[i := h]\<rparr>\<rparr>)"

definition stage_body :: "build \<Rightarrow> 'a Regs_scheme \<Rightarrow> nat \<Rightarrow> u32 \<Rightarrow> PipelineCache \<Rightarrow> flow" where
  "stage_body B regs i binding c =
     (if \<not> IsStageEnabled regs i then Continue binding (clear_stage i c)
      else case ProgramForStage regs i of
        None \<Rightarrow> Continue binding (clear_stage i c)
      | Some pgm \<Rightarrow>
          if Address pgm = 0 then Continue binding (clear_stage i c)
          else
            (let bininfo = GetBinaryInfo pgm
             in if \<not> Valid bininfo then Continue binding (clear_stage i c)
                else if ShouldSkipShader B (shader_hash bininfo) ''graphics'' then ReturnFalse c
                else
                  (let stage = StageFromIndex B i; params = GetParams pgm
                   in if stage \<noteq> Vertex \<and> stage \<noteq> Fragment then ReturnFalse c
                      else if IsStageEnabled regs 3
                      then (case ProgramForStage regs 3 of
                              None \<Rightarrow> Crash
                            | Some pgm3 \<Rightarrow>
                                if Address pgm3 \<noteq> 0 then ReturnFalse c
                                else (case GetProgram B regs stage params binding c of
                                        (r, binding', c') \<Rightarrow> Continue binding' (assign_stage i r c')))
                      else (case GetProgram B regs stage params binding c of
                              (r, binding', c') \<Rightarrow> Continue binding' (assign_stage i r c')))))"

fun stage_loop ::
  "build \<Rightarrow> 'a Regs_scheme \<Rightarrow> nat list \<Rightarrow> u32 \<Rightarrow> PipelineCache
     \<Rightarrow> fault + bool \<times> PipelineCache" where
  "stage_loop B regs [] binding c = Inr (True, c)"
| "stage_loop B regs (i # is) binding c =
     (case stage_body B regs i binding c of
        Continue binding' c' \<Rightarrow> stage_loop B regs is binding' c'
      | ReturnFalse c' \<Rightarrow> Inr (False, c')
      | Crash \<Rightarrow> Inl NullPointerDereference)"

text \<open>Lines 329-349: the fragment stage's mask, then the second pass.\<close>

definition finish_key :: "build \<Rightarrow> 'a Regs_scheme \<Rightarrow> bool \<Rightarrow> PipelineCache \<Rightarrow> PipelineCache" where
  "finish_key B regs skip_cb_binding c =
     (let fs_info = infos c ! Stage_u32 B Fragment;
          key = (graphics_key c)
                  \<lparr>mrt_mask := (case fs_info of Some i \<Rightarrow> info_mrt_mask i | None \<Rightarrow> 0)\<rparr>
      in c\<lparr>graphics_key :=
             second_pass regs skip_cb_binding [0 ..< NumColorBuffers B] 0 key\<rparr>)"

text \<open>\<^verbatim>\<open>PipelineCache::RefreshGraphicsKey\<close> (lines 216-351).\<close>

definition RefreshGraphicsKey ::
  "build \<Rightarrow> 'a Regs_scheme \<Rightarrow> PipelineCache \<Rightarrow> fault + bool \<times> PipelineCache" where
  "RefreshGraphicsKey B regs c =
     (let key = populate_fixed_state B regs (zero_key B);
          skip_cb_binding = (color_control_mode regs = Disable);
          key' = first_pass B regs skip_cb_binding [0 ..< NumColorBuffers B] 0
                   (fill_color_arrays B key)
      in case stage_loop B regs [0 ..< MaxShaderStages B] 0 (c\<lparr>graphics_key := key'\<rparr>) of
           Inl f \<Rightarrow> Inl f
         | Inr (False, c') \<Rightarrow> Inr (False, c')
         | Inr (True, c') \<Rightarrow> Inr (True, finish_key B regs skip_cb_binding c'))"

text \<open>\<^verbatim>\<open>PipelineCache::RefreshComputeKey\<close> (lines 353-363).\<close>

definition RefreshComputeKey ::
  "build \<Rightarrow> 'a Regs_scheme \<Rightarrow> PipelineCache \<Rightarrow> bool \<times> PipelineCache" where
  "RefreshComputeKey B regs c =
     (let binding = 0;
          cs_pgm = cs_program regs;
          cs_params = cs_GetParams cs_pgm
      in if ShouldSkipShader B (hash cs_params) ''compute'' then (False, c)
         else (case GetProgram B regs Compute cs_params binding c of
                 ((info, modl, h), binding', c') \<Rightarrow>
                   (True, c'\<lparr>infos := (infos c')[0 := Some info],
                             modules := (modules c')[0 := modl],
                             compute_key := h\<rparr>)))"

section \<open>The pipeline object cache\<close>

text \<open>
  \<^verbatim>\<open>try_emplace\<close> followed by the creation of the object when the key is new (lines 168-173
  and 180-185). The constructors of the pipeline objects are outside this file; an object is
  the arguments it was created from.
\<close>

definition emplace_graphics :: "PipelineCache \<Rightarrow> nat option \<times> PipelineCache" where
  "emplace_graphics c =
     (case graphics_pipelines c (graphics_key c) of
        Some p \<Rightarrow> (Some p, c)
      | None \<Rightarrow>
          (let p = length (graphics_pipeline_pool c);
               obj = \<lparr>gp_key = graphics_key c, gp_infos = infos c, gp_modules = modules c\<rparr>
           in (Some p,
               c\<lparr>graphics_pipeline_pool := graphics_pipeline_pool c @ [obj],
                 graphics_pipelines := (graphics_pipelines c)(graphics_key c \<mapsto> p)\<rparr>)))"

definition emplace_compute :: "PipelineCache \<Rightarrow> nat option \<times> PipelineCache" where
  "emplace_compute c =
     (case compute_pipelines c (compute_key c) of
        Some p \<Rightarrow> (Some p, c)
      | None \<Rightarrow>
          (let p = length (compute_pipeline_pool c);
               obj = \<lparr>cp_key = compute_key c, cp_info = infos c ! 0, cp_module = modules c ! 0\<rparr>
           in (Some p,
               c\<lparr>compute_pipeline_pool := compute_pipeline_pool c @ [obj],
                 compute_pipelines := (compute_pipelines c)(compute_key c \<mapsto> p)\<rparr>)))"

text \<open>
  \<^verbatim>\<open>PipelineCache::GetGraphicsPipeline\<close> (lines 144-174): \<open>None\<close> is the null pointer.
\<close>

definition GetGraphicsPipeline ::
  "build \<Rightarrow> 'a Regs_scheme \<Rightarrow> PipelineCache \<Rightarrow> fault + nat option \<times> PipelineCache" where
  "GetGraphicsPipeline B regs c =
     (if primitive_type regs = PatchPrimitive then Inr (None, c)
      else if color_control_mode regs = EliminateFastClear then Inr (None, c)
      else if color_control_mode regs = FmaskDecompress then Inr (None, c)
      else if primitive_type regs = PrimitiveType_None then Inr (None, c)
      else case RefreshGraphicsKey B regs c of
             Inl f \<Rightarrow> Inl f
           | Inr (False, c') \<Rightarrow> Inr (None, c')
           | Inr (True, c') \<Rightarrow> Inr (emplace_graphics c'))"

text \<open>\<^verbatim>\<open>PipelineCache::GetComputePipeline\<close> (lines 176-186).\<close>

definition GetComputePipeline ::
  "build \<Rightarrow> 'a Regs_scheme \<Rightarrow> PipelineCache \<Rightarrow> nat option \<times> PipelineCache" where
  "GetComputePipeline B regs c =
     (case RefreshComputeKey B regs c of
        (False, c') \<Rightarrow> (None, c')
      | (True, c') \<Rightarrow> emplace_compute c')"

section \<open>A concrete build and concrete snapshots\<close>

text \<open>
  A build with eight colour buffers and six stage slots, fragment at index 0 and vertex at
  index 1. Its translator reads the fragment output mask from the first code word and takes
  the number of bindings from the two low bits of the content hash; its emitter advances the
  binding cursor by that number.
  Its skip list holds one of the hashes listed in the comment of \<^verbatim>\<open>ShouldSkipShader\<close>.
\<close>

definition demo_build :: build where
  "demo_build =
     \<lparr>NumColorBuffers = 8, MaxShaderStages = 6,
      StageFromIndex = (\<lambda>i. if i = 0 then Fragment else if i = 1 then Vertex else Stage_Other i),
      Stage_u32 = (\<lambda>s. case s of Fragment \<Rightarrow> 0 | Vertex \<Rightarrow> 1 | Compute \<Rightarrow> 6 | Stage_Other n \<Rightarrow> n),
      VK_API_VERSION_1_3 = 0x403000,
      DepthFormat = (\<lambda>z s. case z of ZFormat_Invalid \<Rightarrow> eUndefined
                                    | ZFormat_Other n \<Rightarrow> Format_Other (100 + n)),
      SurfaceFormat = (\<lambda>d n. Format_Other d),
      AdjustColorBufferFormat = (\<lambda>f s b. f),
      Info_new = (\<lambda>stage params. \<lparr>info_stage = stage, pgm_hash = hash params,
                                    info_mrt_mask = 0, NumBindings = 0, info_rest = 0\<rparr>),
      TranslateProgram = (\<lambda>bytecode info rt prof.
         (unat (pgm_hash info AND 3),
          info\<lparr>info_mrt_mask := (case bytecode of [] \<Rightarrow> 0 | m # ms \<Rightarrow> m),
               NumBindings := ucast (pgm_hash info AND 3)\<rparr>)),
      EmitSPIRV = (\<lambda>prof rt ir binding. ([word_of_nat ir], binding + word_of_nat ir)),
      CompileSPV = (\<lambda>spv. Suc (length spv)),
      MakeSpecialization = (\<lambda>info rt binding. unat binding),
      skip_hashes = [0xec602a8fee029fd0]\<rparr>"

text \<open>The number of bindings of a program under that translator, from its content hash.\<close>

definition demo_bindings :: "u64 \<Rightarrow> u32" where
  "demo_bindings h = ucast (h AND 3)"

definition demo_instance :: Instance where
  "demo_instance = \<lparr>ApiVersion = 0x403000, SubgroupSize = 64, IsDepthClipControlSupported = True\<rparr>"

definition demo_cache :: PipelineCache where
  "demo_cache = PipelineCache_new demo_build demo_instance"

definition no_program :: ShaderProgram where
  "no_program =
     \<lparr>settings = \<lparr>num_user_regs = 0, vgpr_comp_cnt = 0, num_vgprs = 0\<rparr>, Address = 0,
      GetBinaryInfo = \<lparr>Valid = False, shader_hash = 0\<rparr>,
      GetParams = \<lparr>code = [], hash = 0\<rparr>\<rparr>"

text \<open>A program at a non-null address with a valid header; its code is one word.\<close>

definition a_program :: "u64 \<Rightarrow> u32 \<Rightarrow> ShaderProgram" where
  "a_program h mrt =
     \<lparr>settings = \<lparr>num_user_regs = 0, vgpr_comp_cnt = 0, num_vgprs = 0\<rparr>, Address = 0x1000,
      GetBinaryInfo = \<lparr>Valid = True, shader_hash = h\<rparr>,
      GetParams = \<lparr>code = [mrt], hash = h\<rparr>\<rparr>"

text \<open>The same, with a header that is not valid.\<close>

definition a_broken_program :: "u64 \<Rightarrow> ShaderProgram" where
  "a_broken_program h = (a_program h 0)\<lparr>GetBinaryInfo := \<lparr>Valid = False, shader_hash = h\<rparr>\<rparr>"

definition no_buffer :: ColorBuffer where
  "no_buffer = \<lparr>cb_bound = False, info_format = 0, NumFormat = 0, info_comp_swap = Standard,
                info_blend_bypass = False\<rparr>"

definition a_buffer :: "DataFormat \<Rightarrow> ColorBuffer" where
  "a_buffer f = \<lparr>cb_bound = True, info_format = f, NumFormat = 0, info_comp_swap = Standard,
                 info_blend_bypass = False\<rparr>"

text \<open>
  A snapshot with no stage enabled, no colour buffer bound, triangles as topology and the
  normal colour operation mode.
\<close>

definition idle_regs :: Regs where
  "idle_regs =
     \<lparr>primitive_type = PrimitiveType_Other 4,
      color_control_mode = OperationMode_Other 1,
      depth_control = \<lparr>depth_enable = False, depth_write_enable = False,
                       stencil_enable = False, depth_control_rest = 0\<rparr>,
      depth_clear_enable = False,
      polygon_control = \<lparr>NeedsBias = False, PolyMode = 0, CullingMode = 0, pc_front_face = 0\<rparr>,
      depth_buffer = \<lparr>z_info_format = ZFormat_Invalid, stencil_info_format = StencilFormat_Invalid\<rparr>,
      stencil_control = 0,
      regs_enable_primitive_restart = 0,
      regs_primitive_restart_index = 0,
      clipper_control_clip_space = ClipSpace_Other 1,
      aa_config_NumSamples = 1,
      color_buffers = (\<lambda>cb. no_buffer),
      color_target_mask = (\<lambda>cb. 0),
      color_shader_mask = (\<lambda>cb. 0),
      blend_control = (\<lambda>cb. \<lparr>enable = False, blend_rest = 0\<rparr>),
      IsStageEnabled = (\<lambda>i. False),
      ProgramForStage = (\<lambda>i. if i < 6 then Some no_program else None),
      vs_program = no_program,
      ps_program = no_program,
      cs_program = \<lparr>cs_settings = \<lparr>num_user_regs = 0, vgpr_comp_cnt = 0, num_vgprs = 0\<rparr>,
                    num_thread_x = 1, num_thread_y = 1, num_thread_z = 1,
                    IsTgidEnabled = (\<lambda>i. False), SharedMemSize = 0,
                    cs_GetParams = \<lparr>code = [0], hash = 0xc5\<rparr>\<rparr>,
      vs_output_control = \<lparr>use_vtx_point_size = False, use_vtx_edge_flag = False,
                           use_vtx_gs_cut_flag = False, use_vtx_kill_flag = False,
                           use_vtx_render_target_idx = False, use_vtx_viewport_idx = False,
                           IsClipDistEnabled = (\<lambda>i. False), IsCullDistEnabled = (\<lambda>i. False)\<rparr>,
      ps_inputs = (\<lambda>i. \<lparr>input_offset = 0, use_default = 0, flat_shade = 0, ps_default_value = 0\<rparr>),
      num_interp = 0\<rparr>"

text \<open>
  Colour slot 0 empty, slots 1 and 2 bound with formats 7 and 9 and write mask 15; the
  fragment program at stage index 0 writes target 1 only.
\<close>

definition sparse_regs :: Regs where
  "sparse_regs =
     idle_regs\<lparr>color_buffers := (\<lambda>cb. if cb = 1 then a_buffer 7
                                       else if cb = 2 then a_buffer 9 else no_buffer),
               color_target_mask := (\<lambda>cb. if cb = 1 \<or> cb = 2 then 15 else 0),
               color_shader_mask := (\<lambda>cb. if cb = 1 \<or> cb = 2 then 15 else 0),
               IsStageEnabled := (\<lambda>i. i = 0),
               ProgramForStage := (\<lambda>i. if i = 0 then Some (a_program 0xf5 2)
                                         else if i < 6 then Some no_program else None)\<rparr>"

text \<open>Depth test, depth write and stencil test requested, with a pending depth clear.\<close>

definition depth_regs :: Regs where
  "depth_regs =
     idle_regs\<lparr>depth_control := \<lparr>depth_enable = True, depth_write_enable = True,
                                  stencil_enable = True, depth_control_rest = 0\<rparr>,
               depth_clear_enable := True,
               depth_buffer := \<lparr>z_info_format = ZFormat_Other 1,
                                 stencil_info_format = StencilFormat_Invalid\<rparr>\<rparr>"

text \<open>The vertex stage enabled, its program at a non-null address with a broken header.\<close>

definition broken_vs_regs :: Regs where
  "broken_vs_regs =
     idle_regs\<lparr>IsStageEnabled := (\<lambda>i. i = 1),
               ProgramForStage := (\<lambda>i. if i = 1 then Some (a_broken_program 0xb1)
                                         else if i < 6 then Some no_program else None)\<rparr>"

text \<open>Only stage index 3 enabled, its program at a non-null address with a broken header.\<close>

definition tess_regs :: Regs where
  "tess_regs =
     idle_regs\<lparr>IsStageEnabled := (\<lambda>i. i = 3),
               ProgramForStage := (\<lambda>i. if i = 3 then Some (a_broken_program 0x7e)
                                         else if i < 6 then Some no_program else None)\<rparr>"

text \<open>Stage index 3 and the vertex stage enabled, both with valid programs.\<close>

definition tess_vs_regs :: Regs where
  "tess_vs_regs =
     idle_regs\<lparr>IsStageEnabled := (\<lambda>i. i = 1 \<or> i = 3),
               ProgramForStage := (\<lambda>i. if i = 1 then Some (a_program 0xa1 0)
                                         else if i = 3 then Some (a_program 0x7e 0)
                                         else if i < 6 then Some no_program else None)\<rparr>"

text \<open>A draw with a fragment program at stage index 0 and a vertex program at index 1.\<close>

definition draw_regs :: Regs where
  "draw_regs =
     idle_regs\<lparr>color_buffers := (\<lambda>cb. if cb = 0 then a_buffer 7 else no_buffer),
               color_target_mask := (\<lambda>cb. if cb = 0 then 15 else 0),
               color_shader_mask := (\<lambda>cb. if cb = 0 then 15 else 0),
               IsStageEnabled := (\<lambda>i. i = 0 \<or> i = 1),
               ProgramForStage := (\<lambda>i. if i = 0 then Some (a_program 0xf5 1)
                                         else if i = 1 then Some (a_program 0xa2 0)
                                         else if i < 6 then Some no_program else None)\<rparr>"

text \<open>The same draw with a vertex program whose hash is on the skip list of the build.\<close>

definition skipped_vs_regs :: Regs where
  "skipped_vs_regs =
     draw_regs\<lparr>ProgramForStage := (\<lambda>i. if i = 0 then Some (a_program 0xf5 1)
                                         else if i = 1 then Some (a_program 0xec602a8fee029fd0 0)
                                         else if i < 6 then Some no_program else None)\<rparr>"

text \<open>A dispatch of a compute program whose hash is on the skip list of the build.\<close>

definition skipped_cs_regs :: Regs where
  "skipped_cs_regs =
     idle_regs\<lparr>cs_program := (cs_program idle_regs)
                  \<lparr>cs_GetParams := \<lparr>code = [0], hash = 0xec602a8fee029fd0\<rparr>\<rparr>\<rparr>"

text \<open>
  Three lookups of the fragment program of \<open>draw_regs\<close>, each on the cache the one before
  left: at binding 0 on the fresh cache, at binding 4, and at binding 0 again.
\<close>

definition frag_params :: ShaderParams where
  "frag_params = GetParams (a_program 0xf5 1)"

definition first_call :: "(Info \<times> ShaderModule \<times> u64) \<times> u32 \<times> PipelineCache" where
  "first_call = GetProgram demo_build draw_regs Fragment frag_params 0 demo_cache"

definition second_call :: "(Info \<times> ShaderModule \<times> u64) \<times> u32 \<times> PipelineCache" where
  "second_call = GetProgram demo_build draw_regs Fragment frag_params 4 (snd (snd first_call))"

definition third_call :: "(Info \<times> ShaderModule \<times> u64) \<times> u32 \<times> PipelineCache" where
  "third_call = GetProgram demo_build draw_regs Fragment frag_params 0 (snd (snd second_call))"

section \<open>Predicates and runs used in the statements\<close>

text \<open>
  A stage slot is live when it is enabled and its program pointer is not null, its address is
  not null and its binary-info header is valid: the stages the loop does not pass over.
\<close>

definition stage_live :: "'a Regs_scheme \<Rightarrow> nat \<Rightarrow> bool" where
  "stage_live regs i =
     (IsStageEnabled regs i \<and>
      (case ProgramForStage regs i of
         None \<Rightarrow> False
       | Some pgm \<Rightarrow> Address pgm \<noteq> 0 \<and> Valid (GetBinaryInfo pgm)))"

text \<open>An enabled slot whose program is at a non-null address with a header that is not valid.\<close>

definition stage_broken :: "'a Regs_scheme \<Rightarrow> nat \<Rightarrow> bool" where
  "stage_broken regs i =
     (IsStageEnabled regs i \<and>
      (case ProgramForStage regs i of
         None \<Rightarrow> False
       | Some pgm \<Rightarrow> Address pgm \<noteq> 0 \<and> \<not> Valid (GetBinaryInfo pgm)))"

text \<open>A live stage slot whose content hash is on the skip list.\<close>

definition stage_skipped :: "build \<Rightarrow> 'a Regs_scheme \<Rightarrow> nat \<Rightarrow> bool" where
  "stage_skipped B regs i =
     (stage_live regs i \<and>
      (case ProgramForStage regs i of
         None \<Rightarrow> False
       | Some pgm \<Rightarrow> shader_hash (GetBinaryInfo pgm) \<in> set (skip_hashes B)))"

text \<open>
  A colour slot survives both passes when colour binding is not skipped, a buffer is bound,
  its target mask is not zero and the fragment stage's mask references it.
\<close>

definition survives :: "'a Regs_scheme \<Rightarrow> bool \<Rightarrow> u32 \<Rightarrow> nat \<Rightarrow> bool" where
  "survives regs skip_cb_binding mrt cb =
     (\<not> skip_cb_binding \<and> cb_bound (color_buffers regs cb) \<and> color_target_mask regs cb \<noteq> 0 \<and>
      mrt AND push_bit cb 1 \<noteq> 0)"

text \<open>The program pointer the tessellation check reads is not null.\<close>

definition tess_pointer_ok :: "'a Regs_scheme \<Rightarrow> bool" where
  "tess_pointer_ok regs = (IsStageEnabled regs 3 \<longrightarrow> ProgramForStage regs 3 \<noteq> None)"

text \<open>
  The content hash of the parameters of every graphics program is the hash in its
  binary-info header.
\<close>

definition params_agree :: "'a Regs_scheme \<Rightarrow> bool" where
  "params_agree regs =
     (\<forall>i pgm. ProgramForStage regs i = Some pgm \<longrightarrow>
        hash (GetParams pgm) = shader_hash (GetBinaryInfo pgm))"

text \<open>
  The permutation index in the words of the specification: 0 for a program that is new, the
  index of the matching permutation when there is one, the length of the module list
  otherwise.
\<close>

definition perm_index ::
  "build \<Rightarrow> 'a Regs_scheme \<Rightarrow> Stage \<Rightarrow> ShaderParams \<Rightarrow> u32 \<Rightarrow> PipelineCache \<Rightarrow> nat" where
  "perm_index B regs stage params binding c =
     (case program_cache c (hash params) of
        None \<Rightarrow> 0
      | Some program \<Rightarrow>
          (case find_spec (pgm_modules program)
                  (MakeSpecialization B (pgm_info program) (BuildRuntimeInfo regs c stage) binding) of
             Some idx \<Rightarrow> idx
           | None \<Rightarrow> length (pgm_modules program)))"

text \<open>The number of permutations the cache holds for a content hash.\<close>

definition perm_count :: "PipelineCache \<Rightarrow> u64 \<Rightarrow> nat" where
  "perm_count c h = (case program_cache c h of None \<Rightarrow> 0 | Some p \<Rightarrow> length (pgm_modules p))"

text \<open>
  A later program cache: every program is still there with the same info, and its module
  list has only grown at the end.
\<close>

definition cache_le :: "(u64 \<rightharpoonup> Program) \<Rightarrow> (u64 \<rightharpoonup> Program) \<Rightarrow> bool" where
  "cache_le m m' =
     (\<forall>h p. m h = Some p \<longrightarrow>
        (\<exists>p'. m' h = Some p' \<and> pgm_info p' = pgm_info p \<and>
              (\<exists>ms. pgm_modules p' = pgm_modules p @ ms)))"

text \<open>
  The contract between the translator and the cache: for a program with content hash \<open>h\<close>
  the translated info reports \<open>nb h\<close> bindings and the emitter advances the cursor by as many.
\<close>

definition binding_contract :: "build \<Rightarrow> (u64 \<Rightarrow> u32) \<Rightarrow> bool" where
  "binding_contract B nb =
     (\<forall>c stage params rt idx b.
        (case CompileModule B c (Info_new B stage params) rt (code params) idx b of
           (m, info', b') \<Rightarrow> b' = b + nb (hash params) \<and> NumBindings info' = nb (hash params)))"

definition cache_ok :: "(u64 \<Rightarrow> u32) \<Rightarrow> PipelineCache \<Rightarrow> bool" where
  "cache_ok nb c = (\<forall>h p. program_cache c h = Some p \<longrightarrow> NumBindings (pgm_info p) = nb h)"

text \<open>
  A sequence of draws and dispatches, each with the register snapshot current at the call.
  A run records, for every call, the pointer returned and the key held by the cache after
  the call; it stops at a fault.
\<close>

datatype 'a call = Draw "'a Regs_scheme" | Dispatch "'a Regs_scheme"

datatype outcome = Drawn "nat option" GraphicsPipelineKey | Dispatched "nat option" u64

fun run ::
  "build \<Rightarrow> 'a call list \<Rightarrow> PipelineCache \<Rightarrow> fault + outcome list \<times> PipelineCache" where
  "run B [] c = Inr ([], c)"
| "run B (Draw regs # calls) c =
     (case GetGraphicsPipeline B regs c of
        Inl f \<Rightarrow> Inl f
      | Inr (p, c') \<Rightarrow>
          (case run B calls c' of
             Inl f \<Rightarrow> Inl f
           | Inr (os, c'') \<Rightarrow> Inr (Drawn p (graphics_key c') # os, c'')))"
| "run B (Dispatch regs # calls) c =
     (case GetComputePipeline B regs c of
        (p, c') \<Rightarrow>
          (case run B calls c' of
             Inl f \<Rightarrow> Inl f
           | Inr (os, c'') \<Rightarrow> Inr (Dispatched p (compute_key c') # os, c'')))"

text \<open>Two equal draws with a dispatch between them, then a draw that the skip list stops.\<close>

definition demo_calls :: "unit call list" where
  "demo_calls = [Draw draw_regs, Dispatch idle_regs, Draw draw_regs, Draw skipped_vs_regs]"

text \<open>
  The pipeline maps and the pools determine each other: a key is mapped to an index exactly
  when the object at that index was created for that key.
\<close>

definition pipelines_inv :: "PipelineCache \<Rightarrow> bool" where
  "pipelines_inv c =
     ((\<forall>k p. graphics_pipelines c k = Some p \<longleftrightarrow>
          p < length (graphics_pipeline_pool c) \<and> gp_key (graphics_pipeline_pool c ! p) = k) \<and>
      (\<forall>k p. compute_pipelines c k = Some p \<longleftrightarrow>
          p < length (compute_pipeline_pool c) \<and> cp_key (compute_pipeline_pool c ! p) = k))"

section \<open>Projections used in the proofs\<close>

text \<open>The key without the arrays and the mask that the refresh writes in its three passes.\<close>

definition fixed_state :: "GraphicsPipelineKey \<Rightarrow> GraphicsPipelineKey" where
  "fixed_state key =
     key\<lparr>stage_hashes := [], color_formats := [], mrt_swizzles := [], blend_controls := [],
         write_masks := [], cb_shader_mask := [], mrt_mask := 0\<rparr>"

definition sans_hashes :: "GraphicsPipelineKey \<Rightarrow> GraphicsPipelineKey" where
  "sans_hashes key = key\<lparr>stage_hashes := []\<rparr>"

text \<open>The cache without what the stage loop writes.\<close>

definition loop_frame :: "PipelineCache \<Rightarrow> PipelineCache" where
  "loop_frame c =
     c\<lparr>program_cache := Map.empty, infos := [], modules := [],
       graphics_key := sans_hashes (graphics_key c)\<rparr>"

text \<open>
  What an iteration of the stage loop does, as far as the snapshot decides it: pass over the
  stage, return false, read through the null pointer, or look the program up.
\<close>

datatype decision = Pass | Stop | Fail | Build Stage ShaderParams

definition stage_decision :: "build \<Rightarrow> 'a Regs_scheme \<Rightarrow> nat \<Rightarrow> decision" where
  "stage_decision B regs i =
     (if \<not> IsStageEnabled regs i then Pass
      else case ProgramForStage regs i of
        None \<Rightarrow> Pass
      | Some pgm \<Rightarrow>
          if Address pgm = 0 then Pass
          else if \<not> Valid (GetBinaryInfo pgm) then Pass
          else if ShouldSkipShader B (shader_hash (GetBinaryInfo pgm)) ''graphics'' then Stop
          else if StageFromIndex B i \<noteq> Vertex \<and> StageFromIndex B i \<noteq> Fragment then Stop
          else if IsStageEnabled regs 3
          then (case ProgramForStage regs 3 of
                  None \<Rightarrow> Fail
                | Some pgm3 \<Rightarrow>
                    if Address pgm3 \<noteq> 0 then Stop
                    else Build (StageFromIndex B i) (GetParams pgm))
          else Build (StageFromIndex B i) (GetParams pgm))"

section \<open>What the stage loop and the colour passes leave alone\<close>

lemma fixed_state_updates [simp]:
  "fixed_state (key\<lparr>stage_hashes := a\<rparr>) = fixed_state key"
  "fixed_state (key\<lparr>color_formats := b\<rparr>) = fixed_state key"
  "fixed_state (key\<lparr>mrt_swizzles := d\<rparr>) = fixed_state key"
  "fixed_state (key\<lparr>blend_controls := e\<rparr>) = fixed_state key"
  "fixed_state (key\<lparr>write_masks := f\<rparr>) = fixed_state key"
  "fixed_state (key\<lparr>cb_shader_mask := g\<rparr>) = fixed_state key"
  "fixed_state (key\<lparr>mrt_mask := h\<rparr>) = fixed_state key"
  by (simp_all add: fixed_state_def)

lemma fixed_state_sans_hashes [simp]: "fixed_state (sans_hashes key) = fixed_state key"
  by (simp add: sans_hashes_def)

lemma sans_hashes_update [simp]: "sans_hashes (key\<lparr>stage_hashes := a\<rparr>) = sans_hashes key"
  by (simp add: sans_hashes_def)

lemma loop_frame_updates [simp]:
  "loop_frame (c\<lparr>program_cache := a\<rparr>) = loop_frame c"
  "loop_frame (c\<lparr>infos := b\<rparr>) = loop_frame c"
  "loop_frame (c\<lparr>modules := d\<rparr>) = loop_frame c"
  "loop_frame (c\<lparr>graphics_key := k\<rparr>) = (loop_frame c)\<lparr>graphics_key := sans_hashes k\<rparr>"
  by (simp_all add: loop_frame_def)

lemma loop_frame_graphics_key [simp]:
  "graphics_key (loop_frame c) = sans_hashes (graphics_key c)"
  by (simp add: loop_frame_def)

lemma loop_frame_same_key [simp]:
  "(loop_frame c)\<lparr>graphics_key := sans_hashes (graphics_key c)\<rparr> = loop_frame c"
  by (simp add: loop_frame_def)

lemma GetProgram_frame:
  "GetProgram B regs stage params b c = (r, b', c') \<Longrightarrow> c' = c\<lparr>program_cache := program_cache c'\<rparr>"
  by (auto simp: GetProgram_def Let_def split: option.splits prod.splits)

lemma GetProgram_loop_frame:
  assumes "GetProgram B regs stage params b c = (r, b', c')"
  shows "loop_frame c' = loop_frame c"
proof -
  have "loop_frame c' = loop_frame (c\<lparr>program_cache := program_cache c'\<rparr>)"
    using GetProgram_frame [OF assms] by simp
  then show ?thesis by simp
qed

lemma fixed_state_first_pass [simp]:
  "fixed_state (first_pass B regs skip cbs r key) = fixed_state key"
  by (induction cbs arbitrary: r key skip) (simp_all add: Let_def)

lemma fixed_state_second_pass [simp]:
  "fixed_state (second_pass regs skip cbs r key) = fixed_state key"
  by (induction cbs arbitrary: r key skip) (simp_all add: Let_def)

lemma loop_frame_clear_stage [simp]: "loop_frame (clear_stage i c) = loop_frame c"
  by (simp add: clear_stage_def)

lemma loop_frame_assign_stage [simp]: "loop_frame (assign_stage i r c) = loop_frame c"
  by (simp add: assign_stage_def split: prod.splits)

lemma stage_body_loop_frame:
  assumes "stage_body B regs i b c = Continue b' c'"
  shows "loop_frame c' = loop_frame c"
  using assms
  apply (simp add: stage_body_def Let_def split: if_splits option.splits prod.splits)
  apply (auto dest: GetProgram_loop_frame)
  done

lemma stage_body_ReturnFalse:
  "stage_body B regs i b c = ReturnFalse c' \<Longrightarrow> c' = c"
  by (simp add: stage_body_def Let_def split: if_splits option.splits prod.splits)

lemma stage_loop_loop_frame:
  "stage_loop B regs is b c = Inr (ok, c') \<Longrightarrow> loop_frame c' = loop_frame c"
proof (induction "is" arbitrary: b c)
  case Nil
  then show ?case by simp
next
  case (Cons i "is")
  show ?case
  proof (cases "stage_body B regs i b c")
    case (Continue b1 c1)
    with Cons.prems have run: "stage_loop B regs is b1 c1 = Inr (ok, c')" by simp
    from Cons.IH [OF run] stage_body_loop_frame [OF Continue] show ?thesis by simp
  next
    case (ReturnFalse c1)
    with Cons.prems stage_body_ReturnFalse [OF ReturnFalse] show ?thesis by simp
  next
    case Crash
    with Cons.prems show ?thesis by simp
  qed
qed


lemma fixed_state_fill [simp]: "fixed_state (fill_color_arrays B key) = fixed_state key"
  by (simp add: fill_color_arrays_def)

lemma fixed_state_finish_key [simp]:
  "fixed_state (graphics_key (finish_key B regs skip c)) = fixed_state (graphics_key c)"
  by (simp add: finish_key_def Let_def)

lemma stage_loop_fixed_state:
  assumes "stage_loop B regs is b c = Inr (ok, c')"
  shows "fixed_state (graphics_key c') = fixed_state (graphics_key c)"
proof -
  have "graphics_key (loop_frame c') = graphics_key (loop_frame c)"
    using stage_loop_loop_frame [OF assms] by simp
  then have "fixed_state (sans_hashes (graphics_key c')) = fixed_state (sans_hashes (graphics_key c))"
    by simp
  then show ?thesis by simp
qed

lemma RefreshGraphicsKey_cases:
  assumes "RefreshGraphicsKey B regs c = Inr (ok, c')"
  obtains c1 where
    "stage_loop B regs [0 ..< MaxShaderStages B] 0
       (c\<lparr>graphics_key := first_pass B regs (color_control_mode regs = Disable)
             [0 ..< NumColorBuffers B] 0
             (fill_color_arrays B (populate_fixed_state B regs (zero_key B)))\<rparr>) = Inr (ok, c1)"
    "c' = (if ok then finish_key B regs (color_control_mode regs = Disable) c1 else c1)"
  using assms
  by (auto simp: RefreshGraphicsKey_def Let_def split: sum.splits prod.splits bool.splits)

lemma RefreshGraphicsKey_fixed_state:
  assumes "RefreshGraphicsKey B regs c = Inr (ok, c')"
  shows "fixed_state (graphics_key c') = fixed_state (populate_fixed_state B regs (zero_key B))"
proof -
  from assms obtain c1 where
    loop: "stage_loop B regs [0 ..< MaxShaderStages B] 0
       (c\<lparr>graphics_key := first_pass B regs (color_control_mode regs = Disable)
             [0 ..< NumColorBuffers B] 0
             (fill_color_arrays B (populate_fixed_state B regs (zero_key B)))\<rparr>) = Inr (ok, c1)"
    and c': "c' = (if ok then finish_key B regs (color_control_mode regs = Disable) c1 else c1)"
    by (rule RefreshGraphicsKey_cases)
  have "fixed_state (graphics_key c') = fixed_state (graphics_key c1)"
    using c' by simp
  also have "\<dots> = fixed_state (populate_fixed_state B regs (zero_key B))"
    using stage_loop_fixed_state [OF loop] by simp
  finally show ?thesis .
qed

lemma fixed_state_depth [simp]:
  "depth_stencil (fixed_state key) = depth_stencil key"
  "depth_format (fixed_state key) = depth_format key"
  "stencil_format (fixed_state key) = stencil_format key"
  by (simp_all add: fixed_state_def)

lemma populate_depth_write:
  "depth_write_enable (depth_stencil (populate_fixed_state B regs key)) =
     (depth_write_enable (depth_control regs) \<and> \<not> depth_clear_enable regs)"
  by (simp add: populate_fixed_state_def Let_def)

lemma populate_depth_format:
  "depth_format (populate_fixed_state B regs key) =
     (if z_info_format (depth_buffer regs) \<noteq> ZFormat_Invalid
      then DepthFormat B (z_info_format (depth_buffer regs)) (stencil_info_format (depth_buffer regs))
      else eUndefined)"
  by (simp add: populate_fixed_state_def Let_def)

lemma populate_stencil_format:
  "stencil_format (populate_fixed_state B regs key) =
     (if stencil_info_format (depth_buffer regs) \<noteq> StencilFormat_Invalid
      then depth_format (populate_fixed_state B regs key) else eUndefined)"
  by (simp add: populate_fixed_state_def Let_def)

lemma populate_depth_enable:
  "depth_enable (depth_stencil (populate_fixed_state B regs key)) =
     (depth_enable (depth_control regs) \<and> depth_format (populate_fixed_state B regs key) \<noteq> eUndefined)"
  by (simp add: populate_fixed_state_def Let_def)

lemma populate_stencil_enable:
  "stencil_enable (depth_stencil (populate_fixed_state B regs key)) =
     (stencil_enable (depth_control regs) \<and> stencil_format (populate_fixed_state B regs key) \<noteq> eUndefined)"
  by (simp add: populate_fixed_state_def Let_def)

text \<open>
  Claim C8. In the key that \<^verbatim>\<open>RefreshGraphicsKey\<close> builds, whether it succeeds or returns
  false: depth write is on exactly when the register asks for it and no depth clear is
  pending; the depth format is undefined when the register's Z format is invalid and the
  stencil format is undefined when the register's stencil format is invalid; depth test
  (stencil test) is on only with a depth (stencil) format that is not undefined.
\<close>

theorem C8_depth_stencil_key:
  assumes "RefreshGraphicsKey B regs c = Inr (ok, c')"
  shows "depth_write_enable (depth_stencil (graphics_key c')) =
           (depth_write_enable (depth_control regs) \<and> \<not> depth_clear_enable regs)
       \<and> (z_info_format (depth_buffer regs) = ZFormat_Invalid \<longrightarrow>
            depth_format (graphics_key c') = eUndefined)
       \<and> (stencil_info_format (depth_buffer regs) = StencilFormat_Invalid \<longrightarrow>
            stencil_format (graphics_key c') = eUndefined)
       \<and> (depth_enable (depth_stencil (graphics_key c')) \<longrightarrow>
            depth_format (graphics_key c') \<noteq> eUndefined)
       \<and> (stencil_enable (depth_stencil (graphics_key c')) \<longrightarrow>
            stencil_format (graphics_key c') \<noteq> eUndefined)"
proof -
  let ?p = "populate_fixed_state B regs (zero_key B)"
  have eq: "fixed_state (graphics_key c') = fixed_state ?p"
    by (rule RefreshGraphicsKey_fixed_state [OF assms])
  have ds: "depth_stencil (graphics_key c') = depth_stencil ?p"
    using arg_cong [OF eq, of depth_stencil] by simp
  have df: "depth_format (graphics_key c') = depth_format ?p"
    using arg_cong [OF eq, of depth_format] by simp
  have sf: "stencil_format (graphics_key c') = stencil_format ?p"
    using arg_cong [OF eq, of stencil_format] by simp
  show ?thesis
    unfolding ds df sf
    by (simp add: populate_depth_write populate_depth_enable populate_stencil_enable
          populate_depth_format populate_stencil_format)
qed

theorem C8_depth_stencil_key_witness:
  "\<not> isl (RefreshGraphicsKey demo_build depth_regs demo_cache)
   \<and> depth_write_enable (depth_control depth_regs) \<and> depth_clear_enable depth_regs
   \<and> \<not> depth_write_enable (depth_stencil (graphics_key
          (snd (projr (RefreshGraphicsKey demo_build depth_regs demo_cache)))))
   \<and> depth_enable (depth_stencil (graphics_key
          (snd (projr (RefreshGraphicsKey demo_build depth_regs demo_cache)))))
   \<and> depth_format (graphics_key
          (snd (projr (RefreshGraphicsKey demo_build depth_regs demo_cache)))) \<noteq> eUndefined
   \<and> stencil_info_format (depth_buffer depth_regs) = StencilFormat_Invalid
   \<and> stencil_format (graphics_key
          (snd (projr (RefreshGraphicsKey demo_build depth_regs demo_cache)))) = eUndefined
   \<and> \<not> isl (RefreshGraphicsKey demo_build idle_regs demo_cache)
   \<and> z_info_format (depth_buffer idle_regs) = ZFormat_Invalid
   \<and> depth_format (graphics_key
          (snd (projr (RefreshGraphicsKey demo_build idle_regs demo_cache)))) = eUndefined"
proof -
  let ?r = "RefreshGraphicsKey demo_build depth_regs demo_cache"
  let ?s = "RefreshGraphicsKey demo_build idle_regs demo_cache"
  have r: "\<not> isl ?r" by code_simp
  have s: "\<not> isl ?s" by code_simp
  have hr: "?r = Inr (fst (projr ?r), snd (projr ?r))" using r by (cases ?r) simp_all
  have hs: "?s = Inr (fst (projr ?s), snd (projr ?s))" using s by (cases ?s) simp_all
  have regs: "depth_write_enable (depth_control depth_regs)" "depth_clear_enable depth_regs"
    "stencil_info_format (depth_buffer depth_regs) = StencilFormat_Invalid"
    "z_info_format (depth_buffer idle_regs) = ZFormat_Invalid"
    by (simp_all add: depth_regs_def idle_regs_def)
  have en: "depth_enable (depth_stencil (graphics_key (snd (projr ?r))))" by code_simp
  show ?thesis
    using C8_depth_stencil_key [OF hr] C8_depth_stencil_key [OF hs] r s regs en by simp
qed

text \<open>
  Claim C10. With the skip list the file declares, which has no element,
  \<^verbatim>\<open>ShouldSkipShader\<close> is false for every hash, \<^verbatim>\<open>RefreshComputeKey\<close> returns true for every
  register state and every cache, and \<^verbatim>\<open>GetComputePipeline\<close> never returns the null pointer.
\<close>

theorem C10_empty_skip_list:
  "\<not> ShouldSkipShader (this_build B) h t
   \<and> fst (RefreshComputeKey (this_build B) regs c)
   \<and> fst (GetComputePipeline (this_build B) regs c) \<noteq> None"
  by (simp add: ShouldSkipShader_def this_build_def RefreshComputeKey_def GetComputePipeline_def
        emplace_compute_def Let_def split: prod.splits option.splits)

section \<open>Stages the loop passes over\<close>

lemma stage_body_not_live:
  "\<not> stage_live regs i \<Longrightarrow> stage_body B regs i b c = Continue b (clear_stage i c)"
proof (cases "IsStageEnabled regs i")
  case False
  then show ?thesis by (simp add: stage_body_def)
next
  case True
  assume dead: "\<not> stage_live regs i"
  show ?thesis
  proof (cases "ProgramForStage regs i")
    case None
    with True show ?thesis by (simp add: stage_body_def)
  next
    case (Some pgm)
    with True dead have "Address pgm = 0 \<or> \<not> Valid (GetBinaryInfo pgm)"
      by (simp add: stage_live_def)
    with True Some show ?thesis by (auto simp: stage_body_def Let_def)
  qed
qed

lemma stage_loop_none_live:
  "\<forall>i \<in> set is. \<not> stage_live regs i \<Longrightarrow>
     stage_loop B regs is b c = Inr (True, fold clear_stage is c)"
  by (induction "is" arbitrary: c) (simp_all add: stage_body_not_live)

lemma fold_clear_stage_cache [simp]:
  "program_cache (fold clear_stage is c) = program_cache c"
  by (induction "is" arbitrary: c) (simp_all add: clear_stage_def)

lemma fold_clear_stage_hashes:
  "stage_hashes (graphics_key c) = replicate n 0 \<Longrightarrow>
     stage_hashes (graphics_key (fold clear_stage is c)) = replicate n 0"
proof (induction "is" arbitrary: c)
  case Nil
  then show ?case by simp
next
  case (Cons i "is")
  have "(replicate n (0::u64))[i := 0] = replicate n 0"
    by (cases "i < n") (simp_all add: list_eq_iff_nth_eq nth_list_update)
  then have "stage_hashes (graphics_key (clear_stage i c)) = replicate n 0"
    using Cons.prems by (simp add: clear_stage_def)
  then show ?case using Cons.IH by simp
qed

lemma stage_hashes_first_pass [simp]:
  "stage_hashes (first_pass B regs skip cbs r key) = stage_hashes key"
  by (induction cbs arbitrary: r key skip) (simp_all add: Let_def)

lemma stage_hashes_second_pass [simp]:
  "stage_hashes (second_pass regs skip cbs r key) = stage_hashes key"
  by (induction cbs arbitrary: r key skip) (simp_all add: Let_def)

lemma mrt_mask_second_pass [simp]:
  "mrt_mask (second_pass regs skip cbs r key) = mrt_mask key"
  by (induction cbs arbitrary: r key skip) (simp_all add: Let_def)

lemma stage_hashes_populate [simp]:
  "stage_hashes (populate_fixed_state B regs key) = stage_hashes key"
  by (simp add: populate_fixed_state_def Let_def)

lemma stage_hashes_fill [simp]:
  "stage_hashes (fill_color_arrays B key) = stage_hashes key"
  by (simp add: fill_color_arrays_def)

lemma finish_key_cache [simp]:
  "program_cache (finish_key B regs skip c) = program_cache c"
  by (simp add: finish_key_def Let_def)

lemma finish_key_hashes [simp]:
  "stage_hashes (graphics_key (finish_key B regs skip c)) = stage_hashes (graphics_key c)"
  by (simp add: finish_key_def Let_def)

lemma RefreshGraphicsKey_none_live:
  assumes "\<forall>i < MaxShaderStages B. \<not> stage_live regs i"
  shows "\<exists>c'. RefreshGraphicsKey B regs c = Inr (True, c')
            \<and> stage_hashes (graphics_key c') = replicate (MaxShaderStages B) 0
            \<and> program_cache c' = program_cache c"
proof -
  let ?k = "first_pass B regs (color_control_mode regs = Disable) [0 ..< NumColorBuffers B] 0
              (fill_color_arrays B (populate_fixed_state B regs (zero_key B)))"
  let ?c1 = "fold clear_stage [0 ..< MaxShaderStages B] (c\<lparr>graphics_key := ?k\<rparr>)"
  have loop: "stage_loop B regs [0 ..< MaxShaderStages B] 0 (c\<lparr>graphics_key := ?k\<rparr>) = Inr (True, ?c1)"
    using assms by (intro stage_loop_none_live) simp
  have run: "RefreshGraphicsKey B regs c =
               Inr (True, finish_key B regs (color_control_mode regs = Disable) ?c1)"
    using loop by (simp add: RefreshGraphicsKey_def Let_def)
  have "stage_hashes (graphics_key (c\<lparr>graphics_key := ?k\<rparr>)) = replicate (MaxShaderStages B) 0"
    by (simp add: zero_key_def)
  then have "stage_hashes (graphics_key ?c1) = replicate (MaxShaderStages B) 0"
    by (rule fold_clear_stage_hashes)
  then show ?thesis using run by simp
qed

text \<open>
  Claim C2, as amended. A stage whose program is at a non-null address with an invalid
  binary-info header does not abort the refresh: the iteration zeroes the stage's hash, clears
  its info pointer, leaves the binding cursor as it is and goes on with the next stage. A
  snapshot in which no enabled stage has a program with a valid header is refreshed with
  success, with every stage hash zero and no program compiled.
\<close>

theorem C2_invalid_header_is_passed_over:
  "(stage_broken regs i \<longrightarrow> stage_body B regs i binding c = Continue binding (clear_stage i c))
   \<and> ((\<forall>i < MaxShaderStages B. \<not> stage_live regs i) \<longrightarrow>
        (\<exists>c'. RefreshGraphicsKey B regs c = Inr (True, c')
             \<and> stage_hashes (graphics_key c') = replicate (MaxShaderStages B) 0
             \<and> program_cache c' = program_cache c))"
proof -
  have "stage_broken regs i \<Longrightarrow> \<not> stage_live regs i"
    by (simp add: stage_broken_def stage_live_def split: option.splits)
  then show ?thesis
    using stage_body_not_live RefreshGraphicsKey_none_live by blast
qed

theorem C2_invalid_header_is_passed_over_witness:
  "stage_broken broken_vs_regs 1
   \<and> stage_body demo_build broken_vs_regs 1 0 demo_cache = Continue 0 (clear_stage 1 demo_cache)
   \<and> \<not> (\<exists>i < MaxShaderStages demo_build. stage_live broken_vs_regs i)
   \<and> (\<exists>c'. RefreshGraphicsKey demo_build broken_vs_regs demo_cache = Inr (True, c')
          \<and> stage_hashes (graphics_key c') = replicate (MaxShaderStages demo_build) 0
          \<and> program_cache c' = program_cache demo_cache)"
proof -
  have b: "stage_broken broken_vs_regs 1"
    by (simp add: stage_broken_def broken_vs_regs_def a_broken_program_def a_program_def)
  have l: "\<forall>i < MaxShaderStages demo_build. \<not> stage_live broken_vs_regs i"
    by (simp add: stage_live_def broken_vs_regs_def a_broken_program_def a_program_def
          idle_regs_def no_program_def)
  show ?thesis
    using C2_invalid_header_is_passed_over [of broken_vs_regs 1 demo_build 0 demo_cache] b l
    by blast
qed

theorem C2_counterexample:
  "IsStageEnabled broken_vs_regs 1
   \<and> ProgramForStage broken_vs_regs 1 = Some (a_broken_program 0xb1)
   \<and> Address (a_broken_program 0xb1) \<noteq> 0
   \<and> \<not> Valid (GetBinaryInfo (a_broken_program 0xb1))
   \<and> \<not> isl (RefreshGraphicsKey demo_build broken_vs_regs demo_cache)
   \<and> fst (projr (RefreshGraphicsKey demo_build broken_vs_regs demo_cache))
   \<and> \<not> isl (GetGraphicsPipeline demo_build broken_vs_regs demo_cache)
   \<and> fst (projr (GetGraphicsPipeline demo_build broken_vs_regs demo_cache)) = Some 0"
  by code_simp

section \<open>Draws that are skipped\<close>

lemma stage_body_live_tess:
  assumes live: "stage_live regs i"
      and tess: "IsStageEnabled regs 3" "ProgramForStage regs 3 = Some pgm3" "Address pgm3 \<noteq> 0"
  shows "stage_body B regs i b c = ReturnFalse c"
proof -
  from live obtain pgm where pgm: "IsStageEnabled regs i" "ProgramForStage regs i = Some pgm"
      "Address pgm \<noteq> 0" "Valid (GetBinaryInfo pgm)"
    by (auto simp: stage_live_def split: option.splits)
  with tess show ?thesis by (simp add: stage_body_def Let_def)
qed

lemma stage_loop_tess:
  assumes tess: "IsStageEnabled regs 3" "ProgramForStage regs 3 = Some pgm3" "Address pgm3 \<noteq> 0"
  shows "\<exists>i \<in> set is. stage_live regs i \<Longrightarrow> \<exists>c'. stage_loop B regs is b c = Inr (False, c')"
proof (induction "is" arbitrary: b c)
  case Nil
  then show ?case by simp
next
  case (Cons i "is")
  show ?case
  proof (cases "stage_live regs i")
    case True
    then show ?thesis using stage_body_live_tess [OF True tess] by simp
  next
    case False
    with Cons.prems have "\<exists>i \<in> set is. stage_live regs i" by auto
    from Cons.IH [OF this] show ?thesis by (simp add: stage_body_not_live [OF False])
  qed
qed

lemma RefreshGraphicsKey_tess:
  assumes "IsStageEnabled regs 3" "ProgramForStage regs 3 = Some pgm3" "Address pgm3 \<noteq> 0"
      and "\<exists>i < MaxShaderStages B. stage_live regs i"
  shows "\<exists>c'. RefreshGraphicsKey B regs c = Inr (False, c')"
proof -
  from assms(4) have "\<exists>i \<in> set [0 ..< MaxShaderStages B]. stage_live regs i" by auto
  from stage_loop_tess [OF assms(1-3) this]
  obtain c' where "stage_loop B regs [0 ..< MaxShaderStages B] 0
       (c\<lparr>graphics_key := first_pass B regs (color_control_mode regs = Disable)
             [0 ..< NumColorBuffers B] 0
             (fill_color_arrays B (populate_fixed_state B regs (zero_key B)))\<rparr>) = Inr (False, c')"
    by blast
  then show ?thesis by (simp add: RefreshGraphicsKey_def Let_def)
qed

text \<open>
  Claim C5, as amended. \<^verbatim>\<open>GetGraphicsPipeline\<close> returns the null pointer whenever the topology
  is patch or none, or the colour operation mode is fast-clear elimination or FMask
  decompression; and also when stage index 3 is enabled with a program at a non-null address,
  provided that some enabled stage has a program at a non-null address with a valid
  binary-info header (the check sits inside the stage loop, behind the tests that pass over a
  stage).
\<close>

theorem C5_skipped_draws:
  assumes "primitive_type regs = PatchPrimitive \<or> primitive_type regs = PrimitiveType_None
         \<or> color_control_mode regs = EliminateFastClear
         \<or> color_control_mode regs = FmaskDecompress
         \<or> (IsStageEnabled regs 3
             \<and> (\<exists>pgm3. ProgramForStage regs 3 = Some pgm3 \<and> Address pgm3 \<noteq> 0)
             \<and> (\<exists>i < MaxShaderStages B. stage_live regs i))"
  shows "\<exists>c'. GetGraphicsPipeline B regs c = Inr (None, c')"
proof (cases "primitive_type regs = PatchPrimitive \<or> primitive_type regs = PrimitiveType_None
         \<or> color_control_mode regs = EliminateFastClear
         \<or> color_control_mode regs = FmaskDecompress")
  case True
  then show ?thesis by (auto simp: GetGraphicsPipeline_def)
next
  case False
  with assms obtain pgm3 where "IsStageEnabled regs 3" "ProgramForStage regs 3 = Some pgm3"
      "Address pgm3 \<noteq> 0" "\<exists>i < MaxShaderStages B. stage_live regs i"
    by blast
  from RefreshGraphicsKey_tess [OF this] obtain c' where
    "RefreshGraphicsKey B regs c = Inr (False, c')" by blast
  with False show ?thesis by (simp add: GetGraphicsPipeline_def)
qed

theorem C5_skipped_draws_witness:
  "IsStageEnabled tess_vs_regs 3
   \<and> (\<exists>pgm3. ProgramForStage tess_vs_regs 3 = Some pgm3 \<and> Address pgm3 \<noteq> 0)
   \<and> (\<exists>i < MaxShaderStages demo_build. stage_live tess_vs_regs i)
   \<and> (\<exists>c'. GetGraphicsPipeline demo_build tess_vs_regs demo_cache = Inr (None, c'))
   \<and> primitive_type (idle_regs\<lparr>primitive_type := PatchPrimitive\<rparr>) = PatchPrimitive
   \<and> (\<exists>c'. GetGraphicsPipeline demo_build (idle_regs\<lparr>primitive_type := PatchPrimitive\<rparr>) demo_cache
            = Inr (None, c'))"
proof -
  have t: "IsStageEnabled tess_vs_regs 3"
    "\<exists>pgm3. ProgramForStage tess_vs_regs 3 = Some pgm3 \<and> Address pgm3 \<noteq> 0"
    by (simp_all add: tess_vs_regs_def a_program_def)
  have "stage_live tess_vs_regs 1"
    by (simp add: stage_live_def tess_vs_regs_def a_program_def)
  moreover have "(1::nat) < MaxShaderStages demo_build" by (simp add: demo_build_def)
  ultimately have l: "\<exists>i < MaxShaderStages demo_build. stage_live tess_vs_regs i" by blast
  have p: "primitive_type (idle_regs\<lparr>primitive_type := PatchPrimitive\<rparr>) = PatchPrimitive" by simp
  show ?thesis
    using C5_skipped_draws [of tess_vs_regs demo_build demo_cache]
      C5_skipped_draws [of "idle_regs\<lparr>primitive_type := PatchPrimitive\<rparr>" demo_build demo_cache]
      t l p by blast
qed

theorem C5_counterexample:
  "IsStageEnabled tess_regs 3
   \<and> ProgramForStage tess_regs 3 = Some (a_broken_program 0x7e)
   \<and> Address (a_broken_program 0x7e) \<noteq> 0
   \<and> \<not> isl (GetGraphicsPipeline demo_build tess_regs demo_cache)
   \<and> fst (projr (GetGraphicsPipeline demo_build tess_regs demo_cache)) = Some 0"
  by code_simp

text \<open>
  Claim C1, at the snapshot \<open>sparse_regs\<close>: slot 0 is empty, slots 1 and 2 are bound and
  unmasked, and the fragment stage writes target 1 only. The refresh succeeds. The write mask
  of slot 1 is packed to index 0 and every other write mask is zero, but the colour formats
  are not packed with it: the format of slot 1 (format 7) is cleared, and the format of slot
  2 (format 9), which the fragment stage does not reference, stays at index 1.
\<close>

theorem C1_sparse_slots:
  "\<not> isl (RefreshGraphicsKey demo_build sparse_regs demo_cache)
   \<and> fst (projr (RefreshGraphicsKey demo_build sparse_regs demo_cache))
   \<and> mrt_mask (graphics_key (snd (projr (RefreshGraphicsKey demo_build sparse_regs demo_cache)))) = 2
   \<and> write_masks (graphics_key (snd (projr (RefreshGraphicsKey demo_build sparse_regs demo_cache))))
       = [15, 0, 0, 0, 0, 0, 0, 0]
   \<and> color_formats (graphics_key (snd (projr (RefreshGraphicsKey demo_build sparse_regs demo_cache))))
       = [eUndefined, Format_Other 9, eUndefined, eUndefined, eUndefined, eUndefined, eUndefined,
          eUndefined]"
  by code_simp

section \<open>The program cache\<close>

lemma HashCombine_inj: "HashCombine s a = HashCombine s b \<longleftrightarrow> a = b"
proof -
  have twice: "s XOR (s XOR x) = x" for x :: u64
    by (simp add: xor.assoc [symmetric])
  have "s XOR x = s XOR y \<longleftrightarrow> x = y" for x y :: u64
    by (metis twice)
  then show ?thesis by (simp add: HashCombine_def)
qed

lemma find_spec_Some:
  "find_spec ms s = Some k \<Longrightarrow> k < length ms \<and> spec (ms ! k) = s"
  by (induction ms arbitrary: k) (auto split: if_splits)

lemma find_spec_None: "find_spec ms s = None \<longleftrightarrow> s \<notin> spec ` set ms"
  by (induction ms) auto

lemma find_spec_append_Some:
  "find_spec ms s = Some k \<Longrightarrow> find_spec (ms @ ms') s = Some k"
  by (induction ms arbitrary: k) (auto split: if_splits)

lemma find_spec_append_new:
  "find_spec ms s = None \<Longrightarrow> find_spec (ms @ [\<lparr>module = m, spec = s\<rparr>]) s = Some (length ms)"
  by (induction ms) (auto split: if_splits)

lemma cache_le_refl: "cache_le m m"
  by (simp add: cache_le_def)

lemma cache_le_trans: "cache_le m1 m2 \<Longrightarrow> cache_le m2 m3 \<Longrightarrow> cache_le m1 m3"
  unfolding cache_le_def by (metis append.assoc)

lemma cache_le_update_new: "m h = None \<Longrightarrow> cache_le m (m(h \<mapsto> p))"
  by (auto simp: cache_le_def)

lemma cache_le_update_append:
  "m h = Some p \<Longrightarrow> cache_le m (m(h \<mapsto> AddPermut p md sp))"
  by (auto simp: cache_le_def AddPermut_def)

text \<open>What one call of \<^verbatim>\<open>GetProgram\<close> returns and leaves in the cache.\<close>

lemma GetProgram_new:
  assumes "program_cache c (hash params) = None"
      and "GetProgram B regs stage params b c = ((info, m, h), b', c')"
  shows "h = HashCombine (hash params) 0"
    and "program_cache c' =
           (program_cache c)(hash params \<mapsto>
              \<lparr>pgm_info = info,
               pgm_modules = [\<lparr>module = m,
                  spec = MakeSpecialization B info (BuildRuntimeInfo regs c stage) b\<rparr>]\<rparr>)"
  using assms by (auto simp: GetProgram_def Let_def AddPermut_def split: prod.splits)

lemma GetProgram_miss:
  assumes "program_cache c (hash params) = Some p"
      and "find_spec (pgm_modules p)
             (MakeSpecialization B (pgm_info p) (BuildRuntimeInfo regs c stage) b) = None"
      and "GetProgram B regs stage params b c = ((info, m, h), b', c')"
  shows "h = HashCombine (hash params) (word_of_nat (length (pgm_modules p)))"
    and "info = pgm_info p"
    and "program_cache c' =
           (program_cache c)(hash params \<mapsto>
              AddPermut p m (MakeSpecialization B info (BuildRuntimeInfo regs c stage) b))"
  using assms by (auto simp: GetProgram_def Let_def split: prod.splits)

lemma GetProgram_hit:
  assumes "program_cache c (hash params) = Some p"
      and "find_spec (pgm_modules p)
             (MakeSpecialization B (pgm_info p) (BuildRuntimeInfo regs c stage) b) = Some k"
  shows "GetProgram B regs stage params b c =
           ((pgm_info p, module (pgm_modules p ! k), HashCombine (hash params) (word_of_nat k)),
            b + NumBindings (pgm_info p), c)"
  using assms by (simp add: GetProgram_def Let_def)

lemma GetProgram_entry:
  assumes run: "GetProgram B regs stage params b c = ((info, m, h), b', c')"
  defines "sp \<equiv> MakeSpecialization B info (BuildRuntimeInfo regs c stage) b"
      and "idx \<equiv> perm_index B regs stage params b c"
  shows "h = HashCombine (hash params) (word_of_nat idx)
       \<and> cache_le (program_cache c) (program_cache c')
       \<and> (\<exists>p'. program_cache c' (hash params) = Some p' \<and> pgm_info p' = info
              \<and> find_spec (pgm_modules p') sp = Some idx
              \<and> pgm_modules p' ! idx = \<lparr>module = m, spec = sp\<rparr>)"
proof (cases "program_cache c (hash params)")
  case None
  from GetProgram_new [OF None run] None show ?thesis
    by (simp add: idx_def sp_def perm_index_def cache_le_update_new)
next
  case (Some p)
  note prog = Some
  let ?sp = "MakeSpecialization B (pgm_info p) (BuildRuntimeInfo regs c stage) b"
  show ?thesis
  proof (cases "find_spec (pgm_modules p) ?sp")
    case None
    note miss = GetProgram_miss [OF prog None run]
    have i: "idx = length (pgm_modules p)"
      using prog None by (simp add: idx_def perm_index_def)
    have s: "sp = ?sp" using miss(2) by (simp add: sp_def)
    have le: "cache_le (program_cache c) (program_cache c')"
      using miss(3) prog cache_le_update_append [of "program_cache c" "hash params" p] by simp
    show ?thesis
      using miss prog None i s le
      by (simp add: AddPermut_def find_spec_append_new)
  next
    case (Some k)
    note found = Some
    have i: "idx = k" using prog found by (simp add: idx_def perm_index_def)
    from run GetProgram_hit [OF prog found] have
      r: "info = pgm_info p" "m = module (pgm_modules p ! k)"
         "h = HashCombine (hash params) (word_of_nat k)" "c' = c"
      by simp_all
    have s: "sp = ?sp" using r(1) by (simp add: sp_def)
    from find_spec_Some [OF found] have "pgm_modules p ! k = \<lparr>module = m, spec = sp\<rparr>"
      using r(2) s by simp
    then show ?thesis using r prog found i s by (simp add: cache_le_refl)
  qed
qed


lemma word_of_nat_u64_inj:
  assumes "i < 2 ^ 64" "j < 2 ^ 64" "(word_of_nat i :: u64) = word_of_nat j"
  shows "i = j"
proof -
  have "unat (word_of_nat i :: u64) = unat (word_of_nat j :: u64)" using assms(3) by simp
  then show ?thesis using assms(1,2) by (simp add: unat_of_nat)
qed

text \<open>
  Claim C6. The dedup hash that \<^verbatim>\<open>GetProgram\<close> returns is \<^verbatim>\<open>HashCombine\<close> of the content hash
  and the permutation index, the index being 0 for a new program, the index of the matching
  permutation on a match and the length of the module list on a miss. For two calls with the
  same content hash, the second made on a cache later than the one the first left (and with
  fewer than \<open>2^64\<close> permutations of the program, the range of \<^verbatim>\<open>size_t\<close>): when the two
  specialization descriptors are equal the second call returns the same index, the same hash
  and the same module and adds nothing to the cache; when they differ the two calls return
  two different entries of the module list and two different hashes.
\<close>

theorem C6_dedup_hash:
  assumes call1: "GetProgram B regs1 stage1 params1 b1 c1 = ((info1, m1, h1), b1', c1')"
      and call2: "GetProgram B regs2 stage2 params2 b2 c2 = ((info2, m2, h2), b2', c2')"
      and later: "cache_le (program_cache c1') (program_cache c2)"
      and same: "hash params2 = hash params1"
      and size: "perm_count c2' (hash params1) < 2 ^ 64"
  defines "sp1 \<equiv> MakeSpecialization B info1 (BuildRuntimeInfo regs1 c1 stage1) b1"
      and "sp2 \<equiv> MakeSpecialization B info2 (BuildRuntimeInfo regs2 c2 stage2) b2"
      and "i1 \<equiv> perm_index B regs1 stage1 params1 b1 c1"
      and "i2 \<equiv> perm_index B regs2 stage2 params2 b2 c2"
  shows "h1 = HashCombine (hash params1) (word_of_nat i1)
       \<and> h2 = HashCombine (hash params2) (word_of_nat i2)
       \<and> i1 < perm_count c2' (hash params1) \<and> i2 < perm_count c2' (hash params1)
       \<and> (sp1 = sp2 \<longrightarrow> i1 = i2 \<and> h1 = h2 \<and> m1 = m2 \<and> c2' = c2)
       \<and> (sp1 \<noteq> sp2 \<longrightarrow> i1 \<noteq> i2 \<and> h1 \<noteq> h2)"
proof -
  from GetProgram_entry [OF call1] obtain p1 where
    h1: "h1 = HashCombine (hash params1) (word_of_nat i1)"
    and p1: "program_cache c1' (hash params1) = Some p1" "pgm_info p1 = info1"
      "find_spec (pgm_modules p1) sp1 = Some i1"
      "pgm_modules p1 ! i1 = \<lparr>module = m1, spec = sp1\<rparr>"
    unfolding sp1_def i1_def by blast
  from later p1(1) obtain p2 ms where
    p2: "program_cache c2 (hash params1) = Some p2" "pgm_info p2 = pgm_info p1"
      "pgm_modules p2 = pgm_modules p1 @ ms"
    unfolding cache_le_def by blast
  from GetProgram_entry [OF call2] obtain p3 where
    h2: "h2 = HashCombine (hash params2) (word_of_nat i2)"
    and le: "cache_le (program_cache c2) (program_cache c2')"
    and p3: "program_cache c2' (hash params2) = Some p3" "pgm_info p3 = info2"
      "find_spec (pgm_modules p3) sp2 = Some i2"
      "pgm_modules p3 ! i2 = \<lparr>module = m2, spec = sp2\<rparr>"
    unfolding sp2_def i2_def by blast
  from le p2(1) p3(1) same obtain ms' where
    ext: "pgm_info p3 = pgm_info p2" "pgm_modules p3 = pgm_modules p2 @ ms'"
    unfolding cache_le_def by fastforce
  have info: "info2 = pgm_info p2" using ext(1) p3(2) by simp
  have f2: "find_spec (pgm_modules p2) sp1 = Some i1"
    using p1(3) p2(3) by (simp add: find_spec_append_Some)
  have f3: "find_spec (pgm_modules p3) sp1 = Some i1"
    using f2 ext(2) by (simp add: find_spec_append_Some)
  have len: "length (pgm_modules p3) < 2 ^ 64" "perm_count c2' (hash params1) = length (pgm_modules p3)"
    using size p3(1) same by (simp_all add: perm_count_def)
  have b1: "i1 < length (pgm_modules p3)" using find_spec_Some [OF f3] by simp
  have b2: "i2 < length (pgm_modules p3)" using find_spec_Some [OF p3(3)] by simp
  have eq: "i1 = i2 \<and> h1 = h2 \<and> m1 = m2 \<and> c2' = c2" if "sp1 = sp2"
  proof -
    have i: "i1 = i2" using f3 p3(3) that by simp
    have "find_spec (pgm_modules p2)
            (MakeSpecialization B (pgm_info p2) (BuildRuntimeInfo regs2 c2 stage2) b2) = Some i1"
      using f2 that info by (simp add: sp2_def)
    from GetProgram_hit [OF _ this, of params2] p2(1) same call2
    have hit: "c2' = c2" "m2 = module (pgm_modules p2 ! i1)" by simp_all
    have "i1 < length (pgm_modules p1)" using find_spec_Some [OF p1(3)] by simp
    then have "pgm_modules p2 ! i1 = pgm_modules p1 ! i1"
      using p2(3) by (simp add: nth_append)
    then have "m2 = m1" using hit(2) p1(4) by simp
    then show ?thesis using i h1 h2 same hit(1) by simp
  qed
  have neq: "i1 \<noteq> i2 \<and> h1 \<noteq> h2" if "sp1 \<noteq> sp2"
  proof -
    have i: "i1 \<noteq> i2"
      using find_spec_Some [OF f3] find_spec_Some [OF p3(3)] that by auto
    have "(word_of_nat i1 :: u64) \<noteq> word_of_nat i2"
      using word_of_nat_u64_inj [of i1 i2] i b1 b2 len(1) by auto
    then show ?thesis using i h1 h2 same by (simp add: HashCombine_inj)
  qed
  show ?thesis using h1 h2 b1 b2 len(2) eq neq same by auto
qed

lemma GetProgram_perm_count:
  assumes "GetProgram B regs stage params b c = (r, b', c')"
  shows "perm_count c' h \<le> Suc (perm_count c h)"
  using assms
  by (auto simp: GetProgram_def Let_def perm_count_def AddPermut_def
           split: option.splits prod.splits if_splits)

lemma demo_cache_empty [simp]: "program_cache demo_cache = Map.empty"
  by (simp add: demo_cache_def PipelineCache_new_def)

lemma demo_spec [simp]: "MakeSpecialization demo_build info rt b = unat b"
  by (simp add: demo_build_def)

theorem C6_dedup_hash_witness:
  "cache_le (program_cache (snd (snd first_call))) (program_cache (snd (snd first_call)))
   \<and> perm_count (snd (snd second_call)) (hash frag_params) < 2 ^ 64
   \<and> MakeSpecialization demo_build (fst (fst first_call))
        (BuildRuntimeInfo draw_regs demo_cache Fragment) 0
      \<noteq> MakeSpecialization demo_build (fst (fst second_call))
        (BuildRuntimeInfo draw_regs (snd (snd first_call)) Fragment) 4
   \<and> perm_index demo_build draw_regs Fragment frag_params 0 demo_cache = 0
   \<and> perm_index demo_build draw_regs Fragment frag_params 4 (snd (snd first_call)) = 1
   \<and> snd (snd (fst first_call)) = HashCombine (hash frag_params) 0
   \<and> snd (snd (fst second_call)) = HashCombine (hash frag_params) 1
   \<and> snd (snd (fst first_call)) \<noteq> snd (snd (fst second_call))
   \<and> cache_le (program_cache (snd (snd first_call))) (program_cache (snd (snd second_call)))
   \<and> perm_count (snd (snd third_call)) (hash frag_params) < 2 ^ 64
   \<and> MakeSpecialization demo_build (fst (fst first_call))
        (BuildRuntimeInfo draw_regs demo_cache Fragment) 0
      = MakeSpecialization demo_build (fst (fst third_call))
        (BuildRuntimeInfo draw_regs (snd (snd second_call)) Fragment) 0
   \<and> snd (snd (fst third_call)) = snd (snd (fst first_call))
   \<and> fst (snd (fst third_call)) = fst (snd (fst first_call))
   \<and> snd (snd third_call) = snd (snd second_call)"
proof -
  have call1: "GetProgram demo_build draw_regs Fragment frag_params 0 demo_cache =
      ((fst (fst first_call), fst (snd (fst first_call)), snd (snd (fst first_call))),
       fst (snd first_call), snd (snd first_call))"
    by (simp add: first_call_def)
  have call2: "GetProgram demo_build draw_regs Fragment frag_params 4 (snd (snd first_call)) =
      ((fst (fst second_call), fst (snd (fst second_call)), snd (snd (fst second_call))),
       fst (snd second_call), snd (snd second_call))"
    by (simp add: second_call_def)
  have call3: "GetProgram demo_build draw_regs Fragment frag_params 0 (snd (snd second_call)) =
      ((fst (fst third_call), fst (snd (fst third_call)), snd (snd (fst third_call))),
       fst (snd third_call), snd (snd third_call))"
    by (simp add: third_call_def)
  have le1: "cache_le (program_cache (snd (snd first_call))) (program_cache (snd (snd first_call)))"
    by (rule cache_le_refl)
  have le2: "cache_le (program_cache (snd (snd first_call))) (program_cache (snd (snd second_call)))"
    using GetProgram_entry [OF call2] by blast
  have "perm_count demo_cache (hash frag_params) = 0" by (simp add: perm_count_def)
  then have "perm_count (snd (snd first_call)) (hash frag_params) \<le> 1"
    using GetProgram_perm_count [OF call1, of "hash frag_params"] by simp
  then have k2: "perm_count (snd (snd second_call)) (hash frag_params) \<le> 2"
    using GetProgram_perm_count [OF call2, of "hash frag_params"] by simp
  then have k3: "perm_count (snd (snd third_call)) (hash frag_params) \<le> 3"
    using GetProgram_perm_count [OF call3, of "hash frag_params"] by simp
  have n2: "perm_count (snd (snd second_call)) (hash frag_params) < 2 ^ 64" using k2 by simp
  have n3: "perm_count (snd (snd third_call)) (hash frag_params) < 2 ^ 64" using k3 by simp
  have i1: "perm_index demo_build draw_regs Fragment frag_params 0 demo_cache = 0"
    by (simp add: perm_index_def)
  have "program_cache (snd (snd first_call)) (hash frag_params) =
          Some \<lparr>pgm_info = fst (fst first_call),
                pgm_modules = [\<lparr>module = fst (snd (fst first_call)), spec = 0\<rparr>]\<rparr>"
    using GetProgram_new(2) [OF _ call1] by simp
  then have i2: "perm_index demo_build draw_regs Fragment frag_params 4 (snd (snd first_call)) = 1"
    by (simp add: perm_index_def)
  show ?thesis
    using C6_dedup_hash [OF call1 call2 le1 refl n2] C6_dedup_hash [OF call1 call3 le2 refl n3]
      le1 le2 n2 n3 i1 i2
    by (simp add: HashCombine_inj)
qed

section \<open>The skip list\<close>

lemma GetProgram_dom:
  assumes "GetProgram B regs stage params b c = (r, b', c')"
  shows "dom (program_cache c') = insert (hash params) (dom (program_cache c))"
  using assms
  by (auto simp: GetProgram_def Let_def split: option.splits prod.splits if_splits)

lemma clear_stage_cache [simp]: "program_cache (clear_stage i c) = program_cache c"
  by (simp add: clear_stage_def)

lemma assign_stage_cache [simp]: "program_cache (assign_stage i r c) = program_cache c"
  by (simp add: assign_stage_def split: prod.splits)

lemma stage_body_no_crash:
  "tess_pointer_ok regs \<Longrightarrow> stage_body B regs i b c \<noteq> Crash"
  by (auto simp: stage_body_def tess_pointer_ok_def Let_def split: option.splits prod.splits)

lemma stage_body_skipped:
  assumes "stage_skipped B regs i"
  shows "stage_body B regs i b c = ReturnFalse c"
proof -
  from assms obtain pgm where "IsStageEnabled regs i" "ProgramForStage regs i = Some pgm"
      "Address pgm \<noteq> 0" "Valid (GetBinaryInfo pgm)"
      "shader_hash (GetBinaryInfo pgm) \<in> set (skip_hashes B)"
    by (auto simp: stage_skipped_def stage_live_def split: option.splits)
  then show ?thesis by (simp add: stage_body_def Let_def ShouldSkipShader_def)
qed

lemma stage_loop_skipped:
  assumes ok: "tess_pointer_ok regs"
  shows "\<exists>i \<in> set is. stage_skipped B regs i \<Longrightarrow> \<exists>c'. stage_loop B regs is b c = Inr (False, c')"
proof (induction "is" arbitrary: b c)
  case Nil
  then show ?case by simp
next
  case (Cons i "is")
  show ?case
  proof (cases "stage_body B regs i b c")
    case (Continue b1 c1)
    then have "\<not> stage_skipped B regs i" using stage_body_skipped [of B regs i b c] by auto
    with Cons.prems have "\<exists>i \<in> set is. stage_skipped B regs i" by auto
    from Cons.IH [OF this] Continue show ?thesis by simp
  next
    case (ReturnFalse c1)
    then show ?thesis by simp
  next
    case Crash
    with stage_body_no_crash [OF ok] show ?thesis by blast
  qed
qed

lemma stage_body_Continue_cases:
  assumes "stage_body B regs i b c = Continue b' c'"
  obtains (passed) "\<not> stage_live regs i" "b' = b" "c' = clear_stage i c"
  | (compiled) pgm r c1 where "stage_live regs i" "ProgramForStage regs i = Some pgm"
      "\<not> ShouldSkipShader B (shader_hash (GetBinaryInfo pgm)) ''graphics''"
      "StageFromIndex B i = Vertex \<or> StageFromIndex B i = Fragment"
      "GetProgram B regs (StageFromIndex B i) (GetParams pgm) b c = (r, b', c1)"
      "c' = assign_stage i r c1"
proof (cases "stage_live regs i")
  case False
  with assms stage_body_not_live [OF False, of B b c] passed show ?thesis by simp
next
  case True
  then obtain pgm where pgm: "IsStageEnabled regs i" "ProgramForStage regs i = Some pgm"
      "Address pgm \<noteq> 0" "Valid (GetBinaryInfo pgm)"
    by (auto simp: stage_live_def split: option.splits)
  obtain r b1 c1 where g: "GetProgram B regs (StageFromIndex B i) (GetParams pgm) b c = (r, b1, c1)"
    by (metis prod.exhaust)
  from assms pgm g have
    "\<not> ShouldSkipShader B (shader_hash (GetBinaryInfo pgm)) ''graphics''
     \<and> (StageFromIndex B i = Vertex \<or> StageFromIndex B i = Fragment)
     \<and> b' = b1 \<and> c' = assign_stage i r c1"
    by (simp add: stage_body_def Let_def split: if_splits option.splits)
  with True pgm(2) g compiled show ?thesis by blast
qed

lemma stage_body_unskipped:
  assumes agree: "params_agree regs"
      and clean: "dom (program_cache c) \<inter> set (skip_hashes B) = {}"
      and step: "stage_body B regs i b c = Continue b' c'"
  shows "dom (program_cache c') \<inter> set (skip_hashes B) = {}"
  using step
proof (cases rule: stage_body_Continue_cases)
  case passed
  then show ?thesis using clean by simp
next
  case (compiled pgm r c1)
  have "hash (GetParams pgm) \<notin> set (skip_hashes B)"
    using agree compiled(2,3) by (simp add: params_agree_def ShouldSkipShader_def)
  then show ?thesis using GetProgram_dom [OF compiled(5)] clean compiled(6) by auto
qed

lemma stage_loop_unskipped:
  assumes agree: "params_agree regs"
  shows "dom (program_cache c) \<inter> set (skip_hashes B) = {} \<Longrightarrow>
         stage_loop B regs is b c = Inr (ok, c') \<Longrightarrow>
         dom (program_cache c') \<inter> set (skip_hashes B) = {}"
proof (induction "is" arbitrary: b c)
  case Nil
  then show ?case by simp
next
  case (Cons i "is")
  show ?case
  proof (cases "stage_body B regs i b c")
    case (Continue b1 c1)
    from stage_body_unskipped [OF agree Cons.prems(1) Continue]
    have "dom (program_cache c1) \<inter> set (skip_hashes B) = {}" .
    moreover from Cons.prems(2) Continue have "stage_loop B regs is b1 c1 = Inr (ok, c')" by simp
    ultimately show ?thesis by (rule Cons.IH)
  next
    case (ReturnFalse c1)
    with Cons.prems stage_body_ReturnFalse [OF ReturnFalse] show ?thesis by simp
  next
    case Crash
    with Cons.prems show ?thesis by simp
  qed
qed

lemma emplace_graphics_cache [simp]:
  "program_cache (snd (emplace_graphics c)) = program_cache c"
  by (simp add: emplace_graphics_def Let_def split: option.splits)

lemma emplace_compute_cache [simp]:
  "program_cache (snd (emplace_compute c)) = program_cache c"
  by (simp add: emplace_compute_def Let_def split: option.splits)

lemma RefreshGraphicsKey_unskipped:
  assumes "params_agree regs" "dom (program_cache c) \<inter> set (skip_hashes B) = {}"
      and "RefreshGraphicsKey B regs c = Inr (ok, c')"
  shows "dom (program_cache c') \<inter> set (skip_hashes B) = {}"
proof -
  from assms(3) obtain c1 where
    loop: "stage_loop B regs [0 ..< MaxShaderStages B] 0
       (c\<lparr>graphics_key := first_pass B regs (color_control_mode regs = Disable)
             [0 ..< NumColorBuffers B] 0
             (fill_color_arrays B (populate_fixed_state B regs (zero_key B)))\<rparr>) = Inr (ok, c1)"
    and c': "c' = (if ok then finish_key B regs (color_control_mode regs = Disable) c1 else c1)"
    by (rule RefreshGraphicsKey_cases)
  have "dom (program_cache c1) \<inter> set (skip_hashes B) = {}"
    using stage_loop_unskipped [OF assms(1) _ loop] assms(2) by simp
  then show ?thesis using c' by simp
qed

lemma GetGraphicsPipeline_unskipped:
  assumes "params_agree regs" "dom (program_cache c) \<inter> set (skip_hashes B) = {}"
      and "GetGraphicsPipeline B regs c = Inr (r, c')"
  shows "dom (program_cache c') \<inter> set (skip_hashes B) = {}"
proof (cases "RefreshGraphicsKey B regs c")
  case (Inl f)
  with assms(2,3) show ?thesis by (auto simp: GetGraphicsPipeline_def split: if_splits)
next
  case (Inr x)
  obtain ok c1 where x: "x = (ok, c1)" by (cases x)
  have c1: "dom (program_cache c1) \<inter> set (skip_hashes B) = {}"
    using RefreshGraphicsKey_unskipped [OF assms(1,2)] Inr x by simp
  have "program_cache c' = program_cache c \<or> program_cache c' = program_cache c1"
    using assms(3) Inr x
    by (cases ok) (auto simp: GetGraphicsPipeline_def split: if_splits dest!: arg_cong [of _ _ "\<lambda>p. program_cache (snd p)"])
  then show ?thesis using c1 assms(2) by (elim disjE) simp_all
qed

lemma GetComputePipeline_unskipped:
  assumes "dom (program_cache c) \<inter> set (skip_hashes B) = {}"
  shows "dom (program_cache (snd (GetComputePipeline B regs c))) \<inter> set (skip_hashes B) = {}"
proof (cases "ShouldSkipShader B (hash (cs_GetParams (cs_program regs))) ''compute''")
  case True
  then show ?thesis using assms by (simp add: GetComputePipeline_def RefreshComputeKey_def)
next
  case False
  obtain info m h b' c1 where
    g: "GetProgram B regs Compute (cs_GetParams (cs_program regs)) 0 c = ((info, m, h), b', c1)"
    by (metis prod.exhaust)
  have "dom (program_cache c1) \<inter> set (skip_hashes B) = {}"
    using GetProgram_dom [OF g] assms False by (auto simp: ShouldSkipShader_def)
  then show ?thesis
    using False g by (simp add: GetComputePipeline_def RefreshComputeKey_def Let_def)
qed

text \<open>
  Claim C7, for any contents of the skip list. A dispatch whose compute program has a content
  hash on the list returns the null pointer and leaves the cache as it was. A draw in which
  some enabled stage has a program at a non-null address with a valid header and a content
  hash on the list returns the null pointer (the program pointer read by the tessellation
  check being non-null, as it is for the register file). And no program whose content hash is
  on the list is ever handed to \<^verbatim>\<open>GetProgram\<close>, which alone calls the translator: a program
  cache without such a hash stays without one across every dispatch, and across every draw
  whose programs carry in their parameters the hash of their header.
\<close>

theorem C7_skip_list:
  "(hash (cs_GetParams (cs_program regs)) \<in> set (skip_hashes B) \<longrightarrow>
      GetComputePipeline B regs c = (None, c))
   \<and> ((\<exists>i < MaxShaderStages B. stage_skipped B regs i) \<and> tess_pointer_ok regs \<longrightarrow>
      (\<exists>c'. GetGraphicsPipeline B regs c = Inr (None, c')))
   \<and> (dom (program_cache c) \<inter> set (skip_hashes B) = {} \<longrightarrow>
      dom (program_cache (snd (GetComputePipeline B regs c))) \<inter> set (skip_hashes B) = {}
      \<and> (params_agree regs \<longrightarrow>
           (\<forall>r c'. GetGraphicsPipeline B regs c = Inr (r, c') \<longrightarrow>
              dom (program_cache c') \<inter> set (skip_hashes B) = {})))"
proof (intro conjI impI allI)
  assume "hash (cs_GetParams (cs_program regs)) \<in> set (skip_hashes B)"
  then show "GetComputePipeline B regs c = (None, c)"
    by (simp add: GetComputePipeline_def RefreshComputeKey_def ShouldSkipShader_def)
next
  assume a: "(\<exists>i < MaxShaderStages B. stage_skipped B regs i) \<and> tess_pointer_ok regs"
  then have "\<exists>i \<in> set [0 ..< MaxShaderStages B]. stage_skipped B regs i" by auto
  from stage_loop_skipped [OF _ this] a obtain c' where
    "stage_loop B regs [0 ..< MaxShaderStages B] 0
       (c\<lparr>graphics_key := first_pass B regs (color_control_mode regs = Disable)
             [0 ..< NumColorBuffers B] 0
             (fill_color_arrays B (populate_fixed_state B regs (zero_key B)))\<rparr>) = Inr (False, c')"
    by blast
  then have "RefreshGraphicsKey B regs c = Inr (False, c')"
    by (simp add: RefreshGraphicsKey_def Let_def)
  then show "\<exists>c'. GetGraphicsPipeline B regs c = Inr (None, c')"
    by (simp add: GetGraphicsPipeline_def)
next
  assume "dom (program_cache c) \<inter> set (skip_hashes B) = {}"
  then show "dom (program_cache (snd (GetComputePipeline B regs c))) \<inter> set (skip_hashes B) = {}"
    by (rule GetComputePipeline_unskipped)
next
  fix r c'
  assume "dom (program_cache c) \<inter> set (skip_hashes B) = {}" "params_agree regs"
    "GetGraphicsPipeline B regs c = Inr (r, c')"
  then show "dom (program_cache c') \<inter> set (skip_hashes B) = {}"
    using GetGraphicsPipeline_unskipped by blast
qed


theorem C7_skip_list_witness:
  "hash (cs_GetParams (cs_program skipped_cs_regs)) \<in> set (skip_hashes demo_build)
   \<and> GetComputePipeline demo_build skipped_cs_regs demo_cache = (None, demo_cache)
   \<and> (\<exists>i < MaxShaderStages demo_build. stage_skipped demo_build skipped_vs_regs i)
   \<and> tess_pointer_ok skipped_vs_regs
   \<and> dom (program_cache demo_cache) \<inter> set (skip_hashes demo_build) = {}
   \<and> dom (program_cache (snd (GetComputePipeline demo_build skipped_cs_regs demo_cache)))
        \<inter> set (skip_hashes demo_build) = {}
   \<and> params_agree skipped_vs_regs
   \<and> (\<exists>c'. GetGraphicsPipeline demo_build skipped_vs_regs demo_cache = Inr (None, c')
          \<and> dom (program_cache c') \<inter> set (skip_hashes demo_build) = {})"
proof -
  have cs: "hash (cs_GetParams (cs_program skipped_cs_regs)) \<in> set (skip_hashes demo_build)"
    by (simp add: skipped_cs_regs_def demo_build_def)
  have "stage_skipped demo_build skipped_vs_regs 1"
    by (simp add: stage_skipped_def stage_live_def skipped_vs_regs_def draw_regs_def
          a_program_def demo_build_def)
  moreover have "(1::nat) < MaxShaderStages demo_build" by (simp add: demo_build_def)
  ultimately have vs: "\<exists>i < MaxShaderStages demo_build. stage_skipped demo_build skipped_vs_regs i"
    by blast
  have ok: "tess_pointer_ok skipped_vs_regs"
    by (simp add: tess_pointer_ok_def skipped_vs_regs_def draw_regs_def idle_regs_def)
  have clean: "dom (program_cache demo_cache) \<inter> set (skip_hashes demo_build) = {}" by simp
  have agree: "params_agree skipped_vs_regs"
    by (simp add: params_agree_def skipped_vs_regs_def draw_regs_def a_program_def no_program_def)
  note both = C7_skip_list [of skipped_cs_regs demo_build demo_cache]
    C7_skip_list [of skipped_vs_regs demo_build demo_cache]
  from both(2) vs ok obtain c' where
    g: "GetGraphicsPipeline demo_build skipped_vs_regs demo_cache = Inr (None, c')" by blast
  with both(2) clean agree have "dom (program_cache c') \<inter> set (skip_hashes demo_build) = {}"
    by blast
  with g both(1) cs vs ok clean agree show ?thesis by blast
qed

section \<open>The pipeline maps\<close>

lemma loop_frame_pipes:
  "graphics_pipelines (loop_frame c) = graphics_pipelines c"
  "graphics_pipeline_pool (loop_frame c) = graphics_pipeline_pool c"
  "compute_pipelines (loop_frame c) = compute_pipelines c"
  "compute_pipeline_pool (loop_frame c) = compute_pipeline_pool c"
  by (simp_all add: loop_frame_def)

lemma finish_key_pipes [simp]:
  "graphics_pipelines (finish_key B regs skip c) = graphics_pipelines c"
  "graphics_pipeline_pool (finish_key B regs skip c) = graphics_pipeline_pool c"
  "compute_pipelines (finish_key B regs skip c) = compute_pipelines c"
  "compute_pipeline_pool (finish_key B regs skip c) = compute_pipeline_pool c"
  by (simp_all add: finish_key_def Let_def)

lemma RefreshGraphicsKey_pipes:
  assumes "RefreshGraphicsKey B regs c = Inr (ok, c')"
  shows "graphics_pipelines c' = graphics_pipelines c"
    and "graphics_pipeline_pool c' = graphics_pipeline_pool c"
    and "compute_pipelines c' = compute_pipelines c"
    and "compute_pipeline_pool c' = compute_pipeline_pool c"
proof -
  from assms obtain c1 where
    loop: "stage_loop B regs [0 ..< MaxShaderStages B] 0
       (c\<lparr>graphics_key := first_pass B regs (color_control_mode regs = Disable)
             [0 ..< NumColorBuffers B] 0
             (fill_color_arrays B (populate_fixed_state B regs (zero_key B)))\<rparr>) = Inr (ok, c1)"
    and c': "c' = (if ok then finish_key B regs (color_control_mode regs = Disable) c1 else c1)"
    by (rule RefreshGraphicsKey_cases)
  note fr = stage_loop_loop_frame [OF loop]
  have "graphics_pipelines c1 = graphics_pipelines c"
    using arg_cong [OF fr, of graphics_pipelines] by (simp add: loop_frame_pipes)
  moreover have "graphics_pipeline_pool c1 = graphics_pipeline_pool c"
    using arg_cong [OF fr, of graphics_pipeline_pool] by (simp add: loop_frame_pipes)
  moreover have "compute_pipelines c1 = compute_pipelines c"
    using arg_cong [OF fr, of compute_pipelines] by (simp add: loop_frame_pipes)
  moreover have "compute_pipeline_pool c1 = compute_pipeline_pool c"
    using arg_cong [OF fr, of compute_pipeline_pool] by (simp add: loop_frame_pipes)
  ultimately show "graphics_pipelines c' = graphics_pipelines c"
    and "graphics_pipeline_pool c' = graphics_pipeline_pool c"
    and "compute_pipelines c' = compute_pipelines c"
    and "compute_pipeline_pool c' = compute_pipeline_pool c"
    using c' by simp_all
qed

lemma RefreshComputeKey_pipes:
  assumes "RefreshComputeKey B regs c = (ok, c')"
  shows "graphics_pipelines c' = graphics_pipelines c"
    and "graphics_pipeline_pool c' = graphics_pipeline_pool c"
    and "compute_pipelines c' = compute_pipelines c"
    and "compute_pipeline_pool c' = compute_pipeline_pool c"
proof -
  obtain r b1 c1 where
    g: "GetProgram B regs Compute (cs_GetParams (cs_program regs)) 0 c = (r, b1, c1)"
    by (metis prod.exhaust)
  note fr = GetProgram_frame [OF g]
  have c1: "graphics_pipelines c1 = graphics_pipelines c"
    "graphics_pipeline_pool c1 = graphics_pipeline_pool c"
    "compute_pipelines c1 = compute_pipelines c"
    "compute_pipeline_pool c1 = compute_pipeline_pool c"
    using arg_cong [OF fr, of graphics_pipelines] arg_cong [OF fr, of graphics_pipeline_pool]
      arg_cong [OF fr, of compute_pipelines] arg_cong [OF fr, of compute_pipeline_pool]
    by simp_all
  have "c' = c \<or> (\<exists>i m h. c' = c1\<lparr>infos := i, modules := m, compute_key := h\<rparr>)"
    using assms g by (auto simp: RefreshComputeKey_def Let_def split: if_splits prod.splits)
  then have "graphics_pipelines c' = graphics_pipelines c \<and>
      graphics_pipeline_pool c' = graphics_pipeline_pool c \<and>
      compute_pipelines c' = compute_pipelines c \<and>
      compute_pipeline_pool c' = compute_pipeline_pool c"
  proof
    assume "c' = c" then show ?thesis by simp
  next
    assume "\<exists>i m h. c' = c1\<lparr>infos := i, modules := m, compute_key := h\<rparr>"
    then obtain i m h where "c' = c1\<lparr>infos := i, modules := m, compute_key := h\<rparr>" by blast
    then show ?thesis using c1 by simp
  qed
  then show "graphics_pipelines c' = graphics_pipelines c"
    and "graphics_pipeline_pool c' = graphics_pipeline_pool c"
    and "compute_pipelines c' = compute_pipelines c"
    and "compute_pipeline_pool c' = compute_pipeline_pool c"
    by simp_all
qed


text \<open>One side of the invariant: a map and the keys of the objects of a pool.\<close>

lemma card_dom_pool:
  assumes "\<forall>k p. m k = Some p \<longleftrightarrow> p < n \<and> key p = k"
  shows "card (dom m) = n"
proof -
  have "dom m = key ` {..<n}" using assms by (auto simp: dom_def)
  moreover have "inj_on key {..<n}"
  proof (rule inj_onI)
    fix p q assume "p \<in> {..<n}" "q \<in> {..<n}" "key p = key q"
    then have "m (key p) = Some p" "m (key p) = Some q" using assms by auto
    then show "p = q" by simp
  qed
  ultimately show ?thesis by (simp add: card_image)
qed

lemma emplace_inv:
  assumes inv: "\<forall>k p. m k = Some p \<longleftrightarrow> p < length pool \<and> key (pool ! p) = k"
      and new: "m k0 = None" and obj: "key x = k0"
  shows "\<forall>k p. (m(k0 \<mapsto> length pool)) k = Some p \<longleftrightarrow>
           p < length (pool @ [x]) \<and> key ((pool @ [x]) ! p) = k"
proof (intro allI)
  fix k p
  show "(m(k0 \<mapsto> length pool)) k = Some p \<longleftrightarrow>
           p < length (pool @ [x]) \<and> key ((pool @ [x]) ! p) = k"
  proof (cases "p < length pool")
    case True
    then have "key (pool ! p) \<noteq> k0" using inv new by (metis option.distinct(1))
    with True inv show ?thesis by (auto simp: nth_append)
  next
    case False
    with inv obj show ?thesis by (auto simp: nth_append less_Suc_eq)
  qed
qed

lemma emplace_graphics_step:
  assumes inv: "pipelines_inv c" and e: "emplace_graphics c = (r, c')"
  shows "pipelines_inv c'" "graphics_key c' = graphics_key c"
    "\<exists>p. r = Some p \<and> graphics_pipelines c' = (graphics_pipelines c)(graphics_key c \<mapsto> p)
         \<and> graphics_pipelines c (graphics_key c) \<in> {None, Some p}"
proof -
  let ?k = "graphics_key c"
  show "pipelines_inv c'"
  proof (cases "graphics_pipelines c ?k")
    case None
    let ?obj = "\<lparr>gp_key = ?k, gp_infos = infos c, gp_modules = modules c\<rparr>"
    from inv have g: "\<forall>k p. graphics_pipelines c k = Some p \<longleftrightarrow>
        p < length (graphics_pipeline_pool c) \<and> gp_key (graphics_pipeline_pool c ! p) = k"
      by (simp add: pipelines_inv_def)
    have "gp_key ?obj = ?k" by simp
    from emplace_inv [of "graphics_pipelines c" "graphics_pipeline_pool c" gp_key, OF g None this]
    show ?thesis using inv e None by (auto simp: emplace_graphics_def Let_def pipelines_inv_def)
  next
    case (Some p)
    with inv e show ?thesis by (auto simp: emplace_graphics_def)
  qed
  show "graphics_key c' = ?k"
    using e by (auto simp: emplace_graphics_def Let_def split: option.splits)
  show "\<exists>p. r = Some p \<and> graphics_pipelines c' = (graphics_pipelines c)(graphics_key c \<mapsto> p)
         \<and> graphics_pipelines c (graphics_key c) \<in> {None, Some p}"
  proof (cases "graphics_pipelines c ?k")
    case None
    with e show ?thesis by (auto simp: emplace_graphics_def Let_def)
  next
    case (Some p)
    with e have "r = Some p" "c' = c" by (auto simp: emplace_graphics_def)
    with Some show ?thesis by (simp add: map_upd_triv)
  qed
qed

lemma emplace_compute_step:
  assumes inv: "pipelines_inv c" and e: "emplace_compute c = (r, c')"
  shows "pipelines_inv c'" "compute_key c' = compute_key c"
    "\<exists>p. r = Some p \<and> compute_pipelines c' = (compute_pipelines c)(compute_key c \<mapsto> p)
         \<and> compute_pipelines c (compute_key c) \<in> {None, Some p}"
proof -
  let ?k = "compute_key c"
  show "pipelines_inv c'"
  proof (cases "compute_pipelines c ?k")
    case None
    let ?obj = "\<lparr>cp_key = ?k, cp_info = infos c ! 0, cp_module = modules c ! 0\<rparr>"
    from inv have g: "\<forall>k p. compute_pipelines c k = Some p \<longleftrightarrow>
        p < length (compute_pipeline_pool c) \<and> cp_key (compute_pipeline_pool c ! p) = k"
      by (simp add: pipelines_inv_def)
    have "cp_key ?obj = ?k" by simp
    from emplace_inv [of "compute_pipelines c" "compute_pipeline_pool c" cp_key, OF g None this]
    show ?thesis using inv e None by (auto simp: emplace_compute_def Let_def pipelines_inv_def)
  next
    case (Some p)
    with inv e show ?thesis by (auto simp: emplace_compute_def)
  qed
  show "compute_key c' = ?k"
    using e by (auto simp: emplace_compute_def Let_def split: option.splits)
  show "\<exists>p. r = Some p \<and> compute_pipelines c' = (compute_pipelines c)(compute_key c \<mapsto> p)
         \<and> compute_pipelines c (compute_key c) \<in> {None, Some p}"
  proof (cases "compute_pipelines c ?k")
    case None
    with e show ?thesis by (auto simp: emplace_compute_def Let_def)
  next
    case (Some p)
    with e have "r = Some p" "c' = c" by (auto simp: emplace_compute_def)
    with Some show ?thesis by (simp add: map_upd_triv)
  qed
qed

lemma emplace_graphics_other:
  "emplace_graphics c = (r, c') \<Longrightarrow>
     compute_pipelines c' = compute_pipelines c \<and> compute_pipeline_pool c' = compute_pipeline_pool c"
  by (auto simp: emplace_graphics_def Let_def split: option.splits)

lemma emplace_compute_other:
  "emplace_compute c = (r, c') \<Longrightarrow>
     graphics_pipelines c' = graphics_pipelines c \<and> graphics_pipeline_pool c' = graphics_pipeline_pool c"
  by (auto simp: emplace_compute_def Let_def split: option.splits)

lemma pipelines_inv_cong:
  assumes "pipelines_inv c"
    "graphics_pipelines c' = graphics_pipelines c" "graphics_pipeline_pool c' = graphics_pipeline_pool c"
    "compute_pipelines c' = compute_pipelines c" "compute_pipeline_pool c' = compute_pipeline_pool c"
  shows "pipelines_inv c'"
  using assms by (simp add: pipelines_inv_def)

text \<open>One draw: what it does to the maps.\<close>

lemma GetGraphicsPipeline_step:
  assumes inv: "pipelines_inv c" and run: "GetGraphicsPipeline B regs c = Inr (r, c')"
  shows "pipelines_inv c'"
    and "compute_pipelines c' = compute_pipelines c"
    and "r = None \<Longrightarrow> graphics_pipelines c' = graphics_pipelines c
           \<and> graphics_pipeline_pool c' = graphics_pipeline_pool c"
    and "\<And>p. r = Some p \<Longrightarrow> graphics_pipelines c' = (graphics_pipelines c)(graphics_key c' \<mapsto> p)
           \<and> graphics_pipelines c (graphics_key c') \<in> {None, Some p}"
proof -
  consider (early) "r = None" "c' = c"
    | (failed) "r = None" "RefreshGraphicsKey B regs c = Inr (False, c')"
    | (built) c1 where "RefreshGraphicsKey B regs c = Inr (True, c1)" "emplace_graphics c1 = (r, c')"
    using run
    by (auto simp: GetGraphicsPipeline_def split: if_splits sum.splits prod.splits bool.splits)
  then have "pipelines_inv c' \<and> compute_pipelines c' = compute_pipelines c
      \<and> (r = None \<longrightarrow> graphics_pipelines c' = graphics_pipelines c
           \<and> graphics_pipeline_pool c' = graphics_pipeline_pool c)
      \<and> (\<forall>p. r = Some p \<longrightarrow> graphics_pipelines c' = (graphics_pipelines c)(graphics_key c' \<mapsto> p)
           \<and> graphics_pipelines c (graphics_key c') \<in> {None, Some p})"
  proof cases
    case early
    with inv show ?thesis by simp
  next
    case failed
    note fr = RefreshGraphicsKey_pipes [OF failed(2)]
    from pipelines_inv_cong [OF inv fr] fr failed(1) show ?thesis by simp
  next
    case (built c1)
    note fr = RefreshGraphicsKey_pipes [OF built(1)]
    have inv1: "pipelines_inv c1" by (rule pipelines_inv_cong [OF inv fr])
    note st = emplace_graphics_step [OF inv1 built(2)] emplace_graphics_other [OF built(2)]
    from st(3) obtain p where "r = Some p"
      "graphics_pipelines c' = (graphics_pipelines c1)(graphics_key c1 \<mapsto> p)"
      "graphics_pipelines c1 (graphics_key c1) \<in> {None, Some p}" by blast
    with st(1,2,4) fr show ?thesis by simp
  qed
  then show "pipelines_inv c'"
    and "compute_pipelines c' = compute_pipelines c"
    and "r = None \<Longrightarrow> graphics_pipelines c' = graphics_pipelines c
           \<and> graphics_pipeline_pool c' = graphics_pipeline_pool c"
    and "\<And>p. r = Some p \<Longrightarrow> graphics_pipelines c' = (graphics_pipelines c)(graphics_key c' \<mapsto> p)
           \<and> graphics_pipelines c (graphics_key c') \<in> {None, Some p}"
    by simp_all
qed

lemma GetComputePipeline_step:
  assumes inv: "pipelines_inv c" and run: "GetComputePipeline B regs c = (r, c')"
  shows "pipelines_inv c'"
    and "graphics_pipelines c' = graphics_pipelines c"
    and "r = None \<Longrightarrow> compute_pipelines c' = compute_pipelines c
           \<and> compute_pipeline_pool c' = compute_pipeline_pool c"
    and "\<And>p. r = Some p \<Longrightarrow> compute_pipelines c' = (compute_pipelines c)(compute_key c' \<mapsto> p)
           \<and> compute_pipelines c (compute_key c') \<in> {None, Some p}"
proof -
  consider (failed) "r = None" "RefreshComputeKey B regs c = (False, c')"
    | (built) c1 where "RefreshComputeKey B regs c = (True, c1)" "emplace_compute c1 = (r, c')"
    using run
    by (auto simp: GetComputePipeline_def split: prod.splits bool.splits)
  then have "pipelines_inv c' \<and> graphics_pipelines c' = graphics_pipelines c
      \<and> (r = None \<longrightarrow> compute_pipelines c' = compute_pipelines c
           \<and> compute_pipeline_pool c' = compute_pipeline_pool c)
      \<and> (\<forall>p. r = Some p \<longrightarrow> compute_pipelines c' = (compute_pipelines c)(compute_key c' \<mapsto> p)
           \<and> compute_pipelines c (compute_key c') \<in> {None, Some p})"
  proof cases
    case failed
    note fr = RefreshComputeKey_pipes [OF failed(2)]
    from pipelines_inv_cong [OF inv fr] fr failed(1) show ?thesis by simp
  next
    case (built c1)
    note fr = RefreshComputeKey_pipes [OF built(1)]
    have inv1: "pipelines_inv c1" by (rule pipelines_inv_cong [OF inv fr])
    note st = emplace_compute_step [OF inv1 built(2)] emplace_compute_other [OF built(2)]
    from st(3) obtain p where "r = Some p"
      "compute_pipelines c' = (compute_pipelines c1)(compute_key c1 \<mapsto> p)"
      "compute_pipelines c1 (compute_key c1) \<in> {None, Some p}" by blast
    with st(1,2,4) fr show ?thesis by simp
  qed
  then show "pipelines_inv c'"
    and "graphics_pipelines c' = graphics_pipelines c"
    and "r = None \<Longrightarrow> compute_pipelines c' = compute_pipelines c
           \<and> compute_pipeline_pool c' = compute_pipeline_pool c"
    and "\<And>p. r = Some p \<Longrightarrow> compute_pipelines c' = (compute_pipelines c)(compute_key c' \<mapsto> p)
           \<and> compute_pipelines c (compute_key c') \<in> {None, Some p}"
    by simp_all
qed

lemma run_pipelines:
  "pipelines_inv c0 \<Longrightarrow> run B calls c0 = Inr (os, c) \<Longrightarrow>
     pipelines_inv c
     \<and> graphics_pipelines c0 \<subseteq>\<^sub>m graphics_pipelines c
     \<and> compute_pipelines c0 \<subseteq>\<^sub>m compute_pipelines c
     \<and> (\<forall>p k. Drawn (Some p) k \<in> set os \<longrightarrow> graphics_pipelines c k = Some p)
     \<and> (\<forall>p k. Dispatched (Some p) k \<in> set os \<longrightarrow> compute_pipelines c k = Some p)
     \<and> dom (graphics_pipelines c) = dom (graphics_pipelines c0) \<union> {k. \<exists>p. Drawn (Some p) k \<in> set os}
     \<and> dom (compute_pipelines c) = dom (compute_pipelines c0) \<union> {k. \<exists>p. Dispatched (Some p) k \<in> set os}"
proof (induction calls arbitrary: c0 os)
  case Nil
  then show ?case by simp
next
  case (Cons call calls)
  show ?case
  proof (cases call)
    case (Draw regs)
    with Cons.prems(2) obtain r c1 os' where
      g: "GetGraphicsPipeline B regs c0 = Inr (r, c1)"
      and rest: "run B calls c1 = Inr (os', c)"
      and os: "os = Drawn r (graphics_key c1) # os'"
      by (auto split: sum.splits prod.splits)
    note st = GetGraphicsPipeline_step [OF Cons.prems(1) g]
    note ih = Cons.IH [OF st(1) rest]
    have le: "graphics_pipelines c0 \<subseteq>\<^sub>m graphics_pipelines c1"
    proof (cases r)
      case None
      with st(3) show ?thesis by simp
    next
      case (Some p)
      with st(4) show ?thesis by (auto simp: map_le_def)
    qed
    have hd: "graphics_pipelines c1 (graphics_key c1) = Some p" if "r = Some p" for p
      using st(4) [OF that] by simp
    have d: "dom (graphics_pipelines c1) =
        dom (graphics_pipelines c0) \<union> {k. \<exists>p. r = Some p \<and> k = graphics_key c1}"
    proof (cases r)
      case None
      with st(3) show ?thesis by simp
    next
      case (Some p)
      with st(4) show ?thesis by auto
    qed
    have hd': "graphics_pipelines c (graphics_key c1) = Some p" if "r = Some p" for p
      using hd [OF that] ih by (auto simp: map_le_def dom_def)
    have 1: "pipelines_inv c" using ih by simp
    have 2: "graphics_pipelines c0 \<subseteq>\<^sub>m graphics_pipelines c"
      using le ih map_le_trans by blast
    have 3: "compute_pipelines c0 \<subseteq>\<^sub>m compute_pipelines c" using ih st(2) by simp
    have 4: "\<forall>p k. Drawn (Some p) k \<in> set os \<longrightarrow> graphics_pipelines c k = Some p"
      using ih hd' os by auto
    have 5: "\<forall>p k. Dispatched (Some p) k \<in> set os \<longrightarrow> compute_pipelines c k = Some p"
      using ih os by auto
    have 6: "dom (graphics_pipelines c) =
        dom (graphics_pipelines c0) \<union> {k. \<exists>p. Drawn (Some p) k \<in> set os}"
    proof -
      have "dom (graphics_pipelines c) =
          dom (graphics_pipelines c1) \<union> {k. \<exists>p. Drawn (Some p) k \<in> set os'}"
        using ih by simp
      also have "\<dots> = dom (graphics_pipelines c0) \<union> {k. \<exists>p. Drawn (Some p) k \<in> set os}"
        unfolding d os by auto
      finally show ?thesis .
    qed
    have 7: "dom (compute_pipelines c) =
        dom (compute_pipelines c0) \<union> {k. \<exists>p. Dispatched (Some p) k \<in> set os}"
      using ih st(2) os by auto
    from 1 2 3 4 5 6 7 show ?thesis by blast
  next
    case (Dispatch regs)
    with Cons.prems(2) obtain r c1 os' where
      g: "GetComputePipeline B regs c0 = (r, c1)"
      and rest: "run B calls c1 = Inr (os', c)"
      and os: "os = Dispatched r (compute_key c1) # os'"
      by (auto split: sum.splits prod.splits)
    note st = GetComputePipeline_step [OF Cons.prems(1) g]
    note ih = Cons.IH [OF st(1) rest]
    have le: "compute_pipelines c0 \<subseteq>\<^sub>m compute_pipelines c1"
    proof (cases r)
      case None
      with st(3) show ?thesis by simp
    next
      case (Some p)
      with st(4) show ?thesis by (auto simp: map_le_def)
    qed
    have hd: "compute_pipelines c1 (compute_key c1) = Some p" if "r = Some p" for p
      using st(4) [OF that] by simp
    have d: "dom (compute_pipelines c1) =
        dom (compute_pipelines c0) \<union> {k. \<exists>p. r = Some p \<and> k = compute_key c1}"
    proof (cases r)
      case None
      with st(3) show ?thesis by simp
    next
      case (Some p)
      with st(4) show ?thesis by auto
    qed
    have hd': "compute_pipelines c (compute_key c1) = Some p" if "r = Some p" for p
      using hd [OF that] ih by (auto simp: map_le_def dom_def)
    have 1: "pipelines_inv c" using ih by simp
    have 2: "compute_pipelines c0 \<subseteq>\<^sub>m compute_pipelines c"
      using le ih map_le_trans by blast
    have 3: "graphics_pipelines c0 \<subseteq>\<^sub>m graphics_pipelines c" using ih st(2) by simp
    have 4: "\<forall>p k. Dispatched (Some p) k \<in> set os \<longrightarrow> compute_pipelines c k = Some p"
      using ih hd' os by auto
    have 5: "\<forall>p k. Drawn (Some p) k \<in> set os \<longrightarrow> graphics_pipelines c k = Some p"
      using ih os by auto
    have 6: "dom (compute_pipelines c) =
        dom (compute_pipelines c0) \<union> {k. \<exists>p. Dispatched (Some p) k \<in> set os}"
    proof -
      have "dom (compute_pipelines c) =
          dom (compute_pipelines c1) \<union> {k. \<exists>p. Dispatched (Some p) k \<in> set os'}"
        using ih by simp
      also have "\<dots> = dom (compute_pipelines c0) \<union> {k. \<exists>p. Dispatched (Some p) k \<in> set os}"
        unfolding d os by auto
      finally show ?thesis .
    qed
    have 7: "dom (graphics_pipelines c) =
        dom (graphics_pipelines c0) \<union> {k. \<exists>p. Drawn (Some p) k \<in> set os}"
      using ih st(2) os by auto
    from 1 2 3 4 5 6 7 show ?thesis by blast
  qed
qed

text \<open>
  Claim C3. For every sequence of draws and dispatches run on a cache whose maps and pools
  agree (as they do in a new cache), that does not stop at a fault: two calls that return an
  object for equal keys return the same object, and one object is never returned for two
  different keys; the keys of a map after the run are those it had before and those of the
  calls that returned an object, so a call whose refresh failed stores nothing; and each pool
  holds exactly one object per key of its map, so every object was built once. The same
  holds for the graphics and for the compute side.
\<close>

theorem C3_one_object_per_key:
  assumes inv: "pipelines_inv c0" and run: "run B calls c0 = Inr (os, c)"
  shows "(\<forall>p q k. Drawn (Some p) k \<in> set os \<and> Drawn (Some q) k \<in> set os \<longrightarrow> p = q)
       \<and> (\<forall>p q k. Dispatched (Some p) k \<in> set os \<and> Dispatched (Some q) k \<in> set os \<longrightarrow> p = q)
       \<and> (\<forall>p k k'. Drawn (Some p) k \<in> set os \<and> Drawn (Some p) k' \<in> set os \<longrightarrow> k = k')
       \<and> (\<forall>p k k'. Dispatched (Some p) k \<in> set os \<and> Dispatched (Some p) k' \<in> set os \<longrightarrow> k = k')
       \<and> dom (graphics_pipelines c) =
           dom (graphics_pipelines c0) \<union> {k. \<exists>p. Drawn (Some p) k \<in> set os}
       \<and> dom (compute_pipelines c) =
           dom (compute_pipelines c0) \<union> {k. \<exists>p. Dispatched (Some p) k \<in> set os}
       \<and> length (graphics_pipeline_pool c) =
           card (dom (graphics_pipelines c0) \<union> {k. \<exists>p. Drawn (Some p) k \<in> set os})
       \<and> length (compute_pipeline_pool c) =
           card (dom (compute_pipelines c0) \<union> {k. \<exists>p. Dispatched (Some p) k \<in> set os})
       \<and> pipelines_inv c"
proof -
  note r = run_pipelines [OF inv run]
  from r have g: "\<forall>k p. graphics_pipelines c k = Some p \<longleftrightarrow>
      p < length (graphics_pipeline_pool c) \<and> gp_key (graphics_pipeline_pool c ! p) = k"
    and h: "\<forall>k p. compute_pipelines c k = Some p \<longleftrightarrow>
      p < length (compute_pipeline_pool c) \<and> cp_key (compute_pipeline_pool c ! p) = k"
    by (simp_all add: pipelines_inv_def)
  have dg: "\<And>p k. Drawn (Some p) k \<in> set os \<Longrightarrow> graphics_pipelines c k = Some p"
    and dc: "\<And>p k. Dispatched (Some p) k \<in> set os \<Longrightarrow> compute_pipelines c k = Some p"
    using r by blast+
  have 1: "\<forall>p q k. Drawn (Some p) k \<in> set os \<and> Drawn (Some q) k \<in> set os \<longrightarrow> p = q"
    using dg by (metis option.inject)
  have 2: "\<forall>p q k. Dispatched (Some p) k \<in> set os \<and> Dispatched (Some q) k \<in> set os \<longrightarrow> p = q"
    using dc by (metis option.inject)
  have 3: "\<forall>p k k'. Drawn (Some p) k \<in> set os \<and> Drawn (Some p) k' \<in> set os \<longrightarrow> k = k'"
    using dg g by metis
  have 4: "\<forall>p k k'. Dispatched (Some p) k \<in> set os \<and> Dispatched (Some p) k' \<in> set os \<longrightarrow> k = k'"
    using dc h by metis
  have 5: "length (graphics_pipeline_pool c) = card (dom (graphics_pipelines c))"
    using card_dom_pool [OF g] by simp
  have 6: "length (compute_pipeline_pool c) = card (dom (compute_pipelines c))"
    using card_dom_pool [OF h] by simp
  from r 1 2 3 4 5 6 show ?thesis by simp
qed

theorem C3_one_object_per_key_witness:
  "pipelines_inv demo_cache
   \<and> \<not> isl (run demo_build demo_calls demo_cache)
   \<and> map (\<lambda>x. case x of Drawn p k \<Rightarrow> p | Dispatched p k \<Rightarrow> p)
        (fst (projr (run demo_build demo_calls demo_cache))) = [Some 0, Some 0, Some 0, None]
   \<and> (case fst (projr (run demo_build demo_calls demo_cache)) ! 0 of
         Drawn p k \<Rightarrow> Drawn p k = fst (projr (run demo_build demo_calls demo_cache)) ! 2)
   \<and> length (graphics_pipeline_pool (snd (projr (run demo_build demo_calls demo_cache)))) =
       card {k. \<exists>p. Drawn (Some p) k \<in> set (fst (projr (run demo_build demo_calls demo_cache)))}
   \<and> length (graphics_pipeline_pool (snd (projr (run demo_build demo_calls demo_cache)))) = 1
   \<and> length (compute_pipeline_pool (snd (projr (run demo_build demo_calls demo_cache)))) = 1"
proof -
  let ?r = "run demo_build demo_calls demo_cache"
  have inv: "pipelines_inv demo_cache"
    by (simp add: pipelines_inv_def demo_cache_def PipelineCache_new_def)
  have ok: "\<not> isl ?r" by code_simp
  then have h: "?r = Inr (fst (projr ?r), snd (projr ?r))" by (cases ?r) simp_all
  have e: "map (\<lambda>x. case x of Drawn p k \<Rightarrow> p | Dispatched p k \<Rightarrow> p) (fst (projr ?r))
             = [Some 0, Some 0, Some 0, None]"
    "case fst (projr ?r) ! 0 of Drawn p k \<Rightarrow> Drawn p k = fst (projr ?r) ! 2"
    "length (graphics_pipeline_pool (snd (projr ?r))) = 1"
    "length (compute_pipeline_pool (snd (projr ?r))) = 1"
    by code_simp+
  have d: "dom (graphics_pipelines demo_cache) = {}"
    by (simp add: demo_cache_def PipelineCache_new_def)
  show ?thesis
    using C3_one_object_per_key [OF inv h] inv ok e d by simp
qed

section \<open>Determinism of the refresh\<close>

text \<open>Every function reads the named fields of the snapshot only.\<close>

lemma BuildRuntimeInfo_truncate:
  "BuildRuntimeInfo (Regs.truncate regs) c stage = BuildRuntimeInfo regs c stage"
  by (cases stage) (simp_all add: Regs.truncate_def Let_def)

lemma GetProgram_truncate:
  "GetProgram B (Regs.truncate regs) stage params b c = GetProgram B regs stage params b c"
  unfolding GetProgram_def BuildRuntimeInfo_truncate by (rule refl)

lemma populate_truncate:
  "populate_fixed_state B (Regs.truncate regs) key = populate_fixed_state B regs key"
  by (simp add: populate_fixed_state_def Regs.truncate_def)

lemma first_pass_truncate:
  "first_pass B (Regs.truncate regs) skip cbs r key = first_pass B regs skip cbs r key"
  by (induction cbs arbitrary: r key skip) (simp_all add: Regs.truncate_def Let_def)

lemma second_pass_truncate:
  "second_pass (Regs.truncate regs) skip cbs r key = second_pass regs skip cbs r key"
  by (induction cbs arbitrary: r key skip) (simp_all add: Regs.truncate_def Let_def)

lemma truncate_stage_fields:
  "IsStageEnabled (Regs.truncate regs) = IsStageEnabled regs"
  "ProgramForStage (Regs.truncate regs) = ProgramForStage regs"
  "color_control_mode (Regs.truncate regs) = color_control_mode regs"
  by (simp_all add: Regs.truncate_def)

lemma stage_body_truncate:
  "stage_body B (Regs.truncate regs) i b c = stage_body B regs i b c"
  unfolding stage_body_def truncate_stage_fields GetProgram_truncate by (rule refl)

lemma stage_loop_truncate:
  "stage_loop B (Regs.truncate regs) is b c = stage_loop B regs is b c"
  by (induction "is" arbitrary: b c) (simp_all add: stage_body_truncate split: flow.splits)

lemma finish_key_truncate:
  "finish_key B (Regs.truncate regs) skip c = finish_key B regs skip c"
  unfolding finish_key_def second_pass_truncate by (rule refl)

lemma RefreshGraphicsKey_truncate:
  "RefreshGraphicsKey B (Regs.truncate regs) c = RefreshGraphicsKey B regs c"
  unfolding RefreshGraphicsKey_def truncate_stage_fields populate_truncate
    first_pass_truncate stage_loop_truncate finish_key_truncate
  by (rule refl)

lemma RefreshGraphicsKey_stale_key:
  "RefreshGraphicsKey B regs (c\<lparr>graphics_key := k\<rparr>) = RefreshGraphicsKey B regs c"
  by (simp add: RefreshGraphicsKey_def)

text \<open>The graphics refresh does not read the compute program.\<close>

lemma BuildRuntimeInfo_cs:
  "stage \<noteq> Compute \<Longrightarrow>
     BuildRuntimeInfo (regs\<lparr>cs_program := x\<rparr>) c stage = BuildRuntimeInfo regs c stage"
  by (cases stage) simp_all

lemma GetProgram_cs:
  "stage \<noteq> Compute \<Longrightarrow>
     GetProgram B (regs\<lparr>cs_program := x\<rparr>) stage params b c = GetProgram B regs stage params b c"
  by (simp add: GetProgram_def BuildRuntimeInfo_cs)

lemma first_pass_cs:
  "first_pass B (regs\<lparr>cs_program := x\<rparr>) skip cbs r key = first_pass B regs skip cbs r key"
  by (induction cbs arbitrary: r key skip) (simp_all add: Let_def)

lemma second_pass_cs:
  "second_pass (regs\<lparr>cs_program := x\<rparr>) skip cbs r key = second_pass regs skip cbs r key"
  by (induction cbs arbitrary: r key skip) (simp_all add: Let_def)

lemma stage_body_cs:
  "stage_body B (regs\<lparr>cs_program := x\<rparr>) i b c = stage_body B regs i b c"
proof (cases "StageFromIndex B i = Vertex \<or> StageFromIndex B i = Fragment")
  case True
  then have "StageFromIndex B i \<noteq> Compute" by auto
  then show ?thesis
    by (simp add: stage_body_def Let_def GetProgram_cs split: option.splits)
next
  case False
  then show ?thesis
    by (simp add: stage_body_def Let_def split: option.splits)
qed

lemma stage_loop_cs:
  "stage_loop B (regs\<lparr>cs_program := x\<rparr>) is b c = stage_loop B regs is b c"
  by (induction "is" arbitrary: b c) (simp_all add: stage_body_cs split: flow.splits)

lemma RefreshGraphicsKey_cs:
  "RefreshGraphicsKey B (regs\<lparr>cs_program := x\<rparr>) c = RefreshGraphicsKey B regs c"
proof -
  have p: "populate_fixed_state B (regs\<lparr>cs_program := x\<rparr>) key = populate_fixed_state B regs key"
    for key by (simp add: populate_fixed_state_def)
  have f: "finish_key B (regs\<lparr>cs_program := x\<rparr>) skip c' = finish_key B regs skip c'"
    for skip c' unfolding finish_key_def second_pass_cs by (rule refl)
  have m: "color_control_mode (regs\<lparr>cs_program := x\<rparr>) = color_control_mode regs" by simp
  show ?thesis
    unfolding RefreshGraphicsKey_def p f m first_pass_cs stage_loop_cs by (rule refl)
qed

text \<open>
  Claim C9. Two register snapshots that agree on every field the graphics refresh reads
  (they may differ in the compute program and in whatever else the register files hold),
  refreshed on the same cache, give the same result: the same fault, or the same return value
  and the same cache, graphics key included; and the key the cache held before the refresh
  has no part in it, the key being rebuilt from zero.
\<close>

theorem C9_refresh_deterministic:
  assumes "Regs.truncate (S1\<lparr>cs_program := cs_program S2\<rparr>) = Regs.truncate S2"
  shows "RefreshGraphicsKey B S1 (c\<lparr>graphics_key := k1\<rparr>) =
         RefreshGraphicsKey B S2 (c\<lparr>graphics_key := k2\<rparr>)"
proof -
  have "RefreshGraphicsKey B S1 (c\<lparr>graphics_key := k1\<rparr>) =
        RefreshGraphicsKey B (Regs.truncate (S1\<lparr>cs_program := cs_program S2\<rparr>)) c"
    by (simp add: RefreshGraphicsKey_truncate RefreshGraphicsKey_stale_key RefreshGraphicsKey_cs)
  also have "\<dots> = RefreshGraphicsKey B (Regs.truncate S2) c" using assms by simp
  also have "\<dots> = RefreshGraphicsKey B S2 (c\<lparr>graphics_key := k2\<rparr>)"
    by (simp add: RefreshGraphicsKey_truncate RefreshGraphicsKey_stale_key)
  finally show ?thesis .
qed

theorem C9_refresh_deterministic_witness:
  "Regs.truncate (draw_regs\<lparr>cs_program := cs_program (Regs.extend skipped_cs_regs (7::nat))\<rparr>)
     = Regs.truncate (Regs.extend (draw_regs\<lparr>cs_program := cs_program skipped_cs_regs\<rparr>) (7::nat))
   \<and> cs_program draw_regs \<noteq> cs_program skipped_cs_regs
   \<and> zero_key demo_build \<noteq> (zero_key demo_build)\<lparr>mrt_mask := 255\<rparr>
   \<and> RefreshGraphicsKey demo_build draw_regs (demo_cache\<lparr>graphics_key := zero_key demo_build\<rparr>) =
     RefreshGraphicsKey demo_build
       (Regs.extend (draw_regs\<lparr>cs_program := cs_program skipped_cs_regs\<rparr>) (7::nat))
       (demo_cache\<lparr>graphics_key := (zero_key demo_build)\<lparr>mrt_mask := 255\<rparr>\<rparr>)"
proof -
  let ?S2 = "Regs.extend (draw_regs\<lparr>cs_program := cs_program skipped_cs_regs\<rparr>) (7::nat)"
  have e: "cs_program ?S2 = cs_program skipped_cs_regs"
    "cs_program (Regs.extend skipped_cs_regs (7::nat)) = cs_program skipped_cs_regs"
    by (simp_all add: Regs.extend_def)
  have t: "Regs.truncate (draw_regs\<lparr>cs_program := cs_program ?S2\<rparr>) = Regs.truncate ?S2"
    by (simp add: Regs.truncate_def Regs.extend_def)
  have d: "cs_program draw_regs \<noteq> cs_program skipped_cs_regs"
    by (simp add: draw_regs_def skipped_cs_regs_def idle_regs_def)
  have k: "zero_key demo_build \<noteq> (zero_key demo_build)\<lparr>mrt_mask := 255\<rparr>"
    by (simp add: zero_key_def)
  show ?thesis
    using C9_refresh_deterministic [OF t, where B = demo_build and c = demo_cache
        and ?k1.0 = "zero_key demo_build"
        and ?k2.0 = "(zero_key demo_build)\<lparr>mrt_mask := 255\<rparr>"] t k d e
    by simp
qed

section \<open>Replaying a draw\<close>

lemma stage_body_decision:
  "stage_body B regs i b c =
     (case stage_decision B regs i of
        Pass \<Rightarrow> Continue b (clear_stage i c)
      | Stop \<Rightarrow> ReturnFalse c
      | Fail \<Rightarrow> Crash
      | Build stage params \<Rightarrow>
          (case GetProgram B regs stage params b c of
             (r, b', c') \<Rightarrow> Continue b' (assign_stage i r c')))"
  by (simp add: stage_body_def stage_decision_def Let_def split: option.splits)

lemma BuildRuntimeInfo_cong:
  "vk_instance d = vk_instance c \<Longrightarrow> graphics_key d = graphics_key c \<Longrightarrow>
     BuildRuntimeInfo regs d stage = BuildRuntimeInfo regs c stage"
  by (cases stage) simp_all

lemma GetProgram_bindings:
  assumes contract: "binding_contract B nb" and ok: "cache_ok nb c"
      and run: "GetProgram B regs stage params b c = ((info, m, h), b', c')"
  shows "b' = b + NumBindings info" and "cache_ok nb c'"
proof -
  have cm: "\<And>rt idx md i1 b1. CompileModule B c (Info_new B stage params) rt (code params) idx b
              = (md, i1, b1) \<Longrightarrow> b1 = b + nb (hash params) \<and> NumBindings i1 = nb (hash params)"
    using contract unfolding binding_contract_def
    by (metis (mono_tags, lifting) case_prod_conv)
  show "b' = b + NumBindings info"
  proof (cases "program_cache c (hash params)")
    case None
    with run cm show ?thesis
      by (auto simp: GetProgram_def Let_def split: prod.splits)
  next
    case (Some p)
    then have "NumBindings (pgm_info p) = nb (hash params)" using ok by (simp add: cache_ok_def)
    with run cm Some show ?thesis
      by (auto simp: GetProgram_def Let_def split: prod.splits option.splits)
  qed
  show "cache_ok nb c'"
  proof (cases "program_cache c (hash params)")
    case None
    from run cm None have n: "NumBindings info = nb (hash params)"
      by (auto simp: GetProgram_def Let_def split: prod.splits)
    from GetProgram_new(2) [OF None run] ok n show ?thesis
      by (auto simp: cache_ok_def split: if_splits)
  next
    case (Some p)
    note prog = Some
    then have n: "NumBindings (pgm_info p) = nb (hash params)" using ok by (simp add: cache_ok_def)
    show ?thesis
    proof (cases "find_spec (pgm_modules p)
             (MakeSpecialization B (pgm_info p) (BuildRuntimeInfo regs c stage) b)")
      case None
      from GetProgram_miss(3) [OF prog None run] ok n show ?thesis
        by (auto simp: cache_ok_def AddPermut_def split: if_splits)
    next
      case (Some k)
      from GetProgram_hit [OF prog Some] run ok show ?thesis by simp
    qed
  qed
qed

text \<open>The same lookup on a later cache is a hit with the same result.\<close>

lemma GetProgram_replay:
  assumes contract: "binding_contract B nb" and ok: "cache_ok nb c"
      and run: "GetProgram B regs stage params b c = ((info, m, h), b', c')"
      and later: "cache_le (program_cache c') (program_cache d)"
      and same: "vk_instance d = vk_instance c" "graphics_key d = graphics_key c"
  shows "GetProgram B regs stage params b d = ((info, m, h), b', d)"
proof -
  let ?sp = "MakeSpecialization B info (BuildRuntimeInfo regs c stage) b"
  let ?i = "perm_index B regs stage params b c"
  from GetProgram_entry [OF run] obtain p where
    h: "h = HashCombine (hash params) (word_of_nat ?i)"
    and p: "program_cache c' (hash params) = Some p" "pgm_info p = info"
      "find_spec (pgm_modules p) ?sp = Some ?i" "pgm_modules p ! ?i = \<lparr>module = m, spec = ?sp\<rparr>"
    by blast
  from later p(1) obtain q ms where
    q: "program_cache d (hash params) = Some q" "pgm_info q = pgm_info p"
      "pgm_modules q = pgm_modules p @ ms"
    unfolding cache_le_def by blast
  have rt: "BuildRuntimeInfo regs d stage = BuildRuntimeInfo regs c stage"
    by (rule BuildRuntimeInfo_cong [OF same])
  have f: "find_spec (pgm_modules q)
             (MakeSpecialization B (pgm_info q) (BuildRuntimeInfo regs d stage) b) = Some ?i"
    using p(2,3) q(2,3) rt by (simp add: find_spec_append_Some)
  have "?i < length (pgm_modules p)" using find_spec_Some [OF p(3)] by simp
  then have md: "module (pgm_modules q ! ?i) = m" using q(3) p(4) by (simp add: nth_append)
  have "b' = b + NumBindings info" by (rule GetProgram_bindings(1) [OF contract ok run])
  with GetProgram_hit [OF q(1) f] md h p(2) q(2) show ?thesis by simp
qed

lemma GetProgram_mono:
  assumes "GetProgram B regs stage params b c = (r, b', c')"
  shows "cache_le (program_cache c) (program_cache c')"
proof -
  obtain info m h where "r = (info, m, h)" by (cases r)
  with GetProgram_entry assms show ?thesis by blast
qed

text \<open>An iteration writes the stage arrays at its own index only.\<close>

lemma stage_body_other_index:
  assumes step: "stage_body B regs i b c = Continue b' c'" and other: "j \<noteq> i"
  shows "infos c' ! j = infos c ! j \<and> modules c' ! j = modules c ! j \<and>
      length (infos c') = length (infos c) \<and> length (modules c') = length (modules c) \<and>
      vk_instance c' = vk_instance c"
  using step
proof (cases rule: stage_body_Continue_cases)
  case passed
  with other show ?thesis by (simp add: clear_stage_def)
next
  case (compiled pgm r c1)
  note fr = GetProgram_frame [OF compiled(5)]
  have "infos c1 = infos c" "modules c1 = modules c" "vk_instance c1 = vk_instance c"
    using arg_cong [OF fr, of infos] arg_cong [OF fr, of modules] arg_cong [OF fr, of vk_instance]
    by simp_all
  with compiled(6) other show ?thesis
    by (simp add: assign_stage_def split: prod.splits)
qed

lemma stage_loop_other_index:
  "stage_loop B regs is b c = Inr (ok, c') \<Longrightarrow> j \<notin> set is \<Longrightarrow>
     infos c' ! j = infos c ! j \<and> modules c' ! j = modules c ! j \<and>
     length (infos c') = length (infos c) \<and> length (modules c') = length (modules c) \<and>
     vk_instance c' = vk_instance c"
proof (induction "is" arbitrary: b c)
  case Nil
  then show ?case by simp
next
  case (Cons i "is")
  show ?case
  proof (cases "stage_body B regs i b c")
    case (Continue b1 c1)
    with Cons.prems have rest: "stage_loop B regs is b1 c1 = Inr (ok, c')" by simp
    from Cons.prems(2) have "j \<noteq> i" "j \<notin> set is" by auto
    from stage_body_other_index [OF Continue this(1)] Cons.IH [OF rest this(2)]
    show ?thesis by simp
  next
    case (ReturnFalse c1)
    with Cons.prems stage_body_ReturnFalse [OF ReturnFalse] show ?thesis by simp
  next
    case Crash
    with Cons.prems show ?thesis by simp
  qed
qed

lemma stage_loop_mono:
  "stage_loop B regs is b c = Inr (ok, c') \<Longrightarrow> cache_le (program_cache c) (program_cache c')"
proof (induction "is" arbitrary: b c)
  case Nil
  then show ?case by (simp add: cache_le_refl)
next
  case (Cons i "is")
  show ?case
  proof (cases "stage_body B regs i b c")
    case (Continue b1 c1)
    with Cons.prems have rest: "stage_loop B regs is b1 c1 = Inr (ok, c')" by simp
    have "cache_le (program_cache c) (program_cache c1)"
      using Continue
    proof (cases rule: stage_body_Continue_cases)
      case passed
      then show ?thesis by (simp add: cache_le_refl)
    next
      case (compiled pgm r c2)
      with GetProgram_mono [OF compiled(5)] show ?thesis by simp
    qed
    then show ?thesis using Cons.IH [OF rest] by (rule cache_le_trans)
  next
    case (ReturnFalse c1)
    with Cons.prems stage_body_ReturnFalse [OF ReturnFalse] show ?thesis
      by (simp add: cache_le_refl)
  next
    case Crash
    with Cons.prems show ?thesis by simp
  qed
qed


lemma stage_loop_cache_ok:
  assumes contract: "binding_contract B nb"
  shows "stage_loop B regs is b c = Inr (ok, c') \<Longrightarrow> cache_ok nb c \<Longrightarrow> cache_ok nb c'"
proof (induction "is" arbitrary: b c)
  case Nil
  then show ?case by simp
next
  case (Cons i "is")
  show ?case
  proof (cases "stage_body B regs i b c")
    case (Continue b1 c1)
    with Cons.prems have rest: "stage_loop B regs is b1 c1 = Inr (ok, c')" by simp
    have "cache_ok nb c1"
      using Continue
    proof (cases rule: stage_body_Continue_cases)
      case passed
      with Cons.prems(2) show ?thesis by (simp add: cache_ok_def)
    next
      case (compiled pgm r c2)
      obtain info m h where "r = (info, m, h)" by (cases r)
      with GetProgram_bindings(2) [OF contract Cons.prems(2)] compiled(5,6)
      show ?thesis by (simp add: cache_ok_def)
    qed
    then show ?thesis using Cons.IH [OF rest] by simp
  next
    case (ReturnFalse c1)
    with Cons.prems stage_body_ReturnFalse [OF ReturnFalse] show ?thesis by simp
  next
    case Crash
    with Cons.prems show ?thesis by simp
  qed
qed

text \<open>
  The stage loop run again, from the key it started with, on a cache that is later than the
  one it left and holds the stage arrays it left: every lookup is a hit, and nothing but the
  key changes.
\<close>

lemma stage_loop_replay:
  assumes contract: "binding_contract B nb"
  shows "stage_loop B regs is b c = Inr (ok, c') \<Longrightarrow> cache_ok nb c \<Longrightarrow> distinct is \<Longrightarrow>
     cache_le (program_cache c') (program_cache d) \<Longrightarrow>
     vk_instance d = vk_instance c \<Longrightarrow> graphics_key d = graphics_key c \<Longrightarrow>
     infos d = infos c' \<Longrightarrow> modules d = modules c' \<Longrightarrow>
     stage_loop B regs is b d = Inr (ok, d\<lparr>graphics_key := graphics_key c'\<rparr>)"
proof (induction "is" arbitrary: b c d)
  case Nil
  then show ?case by simp
next
  case (Cons i "is")
  from Cons.prems(3) have fresh: "i \<notin> set is" and dist: "distinct is" by auto
  show ?case
  proof (cases "stage_decision B regs i")
    case Pass
    with Cons.prems(1) have rest: "stage_loop B regs is b (clear_stage i c) = Inr (ok, c')"
      by (simp add: stage_body_decision)
    note keep = stage_loop_other_index [OF rest fresh]
    have i1: "(infos c')[i := None] = infos c'"
    proof (cases "i < length (infos c')")
      case True
      with keep have "infos c' ! i = None" by (simp add: clear_stage_def)
      with True show ?thesis by (simp add: list_update_same_conv)
    next
      case False
      then show ?thesis by (simp add: list_update_beyond)
    qed
    have d1: "clear_stage i d =
        d\<lparr>graphics_key := (graphics_key c)\<lparr>stage_hashes := (stage_hashes (graphics_key c))[i := 0]\<rparr>\<rparr>"
      using Cons.prems(6,7) i1 by (simp add: clear_stage_def)
    have "stage_loop B regs is b (clear_stage i d) =
        Inr (ok, (clear_stage i d)\<lparr>graphics_key := graphics_key c'\<rparr>)"
    proof (rule Cons.IH [OF rest _ dist])
      show "cache_ok nb (clear_stage i c)" using Cons.prems(2) by (simp add: cache_ok_def)
      show "cache_le (program_cache c') (program_cache (clear_stage i d))"
        using Cons.prems(4) by simp
      show "vk_instance (clear_stage i d) = vk_instance (clear_stage i c)"
        using Cons.prems(5) by (simp add: clear_stage_def)
      show "graphics_key (clear_stage i d) = graphics_key (clear_stage i c)"
        using Cons.prems(6) by (simp add: clear_stage_def)
      show "infos (clear_stage i d) = infos c'" using d1 Cons.prems(7) by simp
      show "modules (clear_stage i d) = modules c'"
        using Cons.prems(8) by (simp add: clear_stage_def)
    qed
    then show ?thesis using Pass d1 by (simp add: stage_body_decision)
  next
    case Stop
    with Cons.prems(1) have "ok = False" "c' = c" by (simp_all add: stage_body_decision)
    with Stop Cons.prems(6) show ?thesis by (simp add: stage_body_decision)
  next
    case Fail
    with Cons.prems(1) show ?thesis by (simp add: stage_body_decision)
  next
    case (Build stage params)
    obtain info m h b1 c1 where g: "GetProgram B regs stage params b c = ((info, m, h), b1, c1)"
      by (metis prod.exhaust)
    let ?ca = "assign_stage i (info, m, h) c1"
    let ?da = "assign_stage i (info, m, h) d"
    from Cons.prems(1) Build g have rest: "stage_loop B regs is b1 ?ca = Inr (ok, c')"
      by (simp add: stage_body_decision)
    note keep = stage_loop_other_index [OF rest fresh]
    note fr = GetProgram_frame [OF g]
    have c1: "infos c1 = infos c" "modules c1 = modules c" "vk_instance c1 = vk_instance c"
      "graphics_key c1 = graphics_key c"
      using arg_cong [OF fr, of infos] arg_cong [OF fr, of modules]
        arg_cong [OF fr, of vk_instance] arg_cong [OF fr, of graphics_key]
      by simp_all
    have le: "cache_le (program_cache c1) (program_cache d)"
    proof -
      have "cache_le (program_cache ?ca) (program_cache c')" by (rule stage_loop_mono [OF rest])
      then have "cache_le (program_cache c1) (program_cache c')" by simp
      then show ?thesis using Cons.prems(4) by (rule cache_le_trans)
    qed
    have again: "GetProgram B regs stage params b d = ((info, m, h), b1, d)"
      by (rule GetProgram_replay [OF contract Cons.prems(2) g le Cons.prems(5,6)])
    have i1: "(infos c')[i := Some info] = infos c'"
    proof (cases "i < length (infos c')")
      case True
      with keep have "infos c' ! i = Some info" by (simp add: assign_stage_def)
      with True show ?thesis by (simp add: list_update_same_conv)
    next
      case False
      then show ?thesis by (simp add: list_update_beyond)
    qed
    have m1: "(modules c')[i := m] = modules c'"
    proof (cases "i < length (modules c')")
      case True
      with keep have "modules c' ! i = m" by (simp add: assign_stage_def)
      with True show ?thesis by (simp add: list_update_same_conv)
    next
      case False
      then show ?thesis by (simp add: list_update_beyond)
    qed
    have d1: "?da = d\<lparr>graphics_key := graphics_key ?ca\<rparr>"
      using Cons.prems(6,7,8) i1 m1 c1 by (simp add: assign_stage_def)
    have "stage_loop B regs is b1 ?da = Inr (ok, ?da\<lparr>graphics_key := graphics_key c'\<rparr>)"
    proof (rule Cons.IH [OF rest _ dist])
      show "cache_ok nb ?ca"
        using GetProgram_bindings(2) [OF contract Cons.prems(2) g] by (simp add: cache_ok_def)
      show "cache_le (program_cache c') (program_cache ?da)" using Cons.prems(4) by simp
      show "vk_instance ?da = vk_instance ?ca"
        using Cons.prems(5) c1 by (simp add: assign_stage_def)
      show "graphics_key ?da = graphics_key ?ca" using d1 by simp
      show "infos ?da = infos c'" using d1 Cons.prems(7) by simp
      show "modules ?da = modules c'" using d1 Cons.prems(8) by simp
    qed
    then show ?thesis using Build again d1 by (simp add: stage_body_decision)
  qed
qed

lemma loop_frame_instance [simp]: "vk_instance (loop_frame c) = vk_instance c"
  by (simp add: loop_frame_def)

lemma finish_key_arrays [simp]:
  "infos (finish_key B regs skip c) = infos c"
  "modules (finish_key B regs skip c) = modules c"
  "vk_instance (finish_key B regs skip c) = vk_instance c"
  by (simp_all add: finish_key_def Let_def)

lemma finish_key_cong:
  "infos e = infos c \<Longrightarrow>
     finish_key B regs skip (e\<lparr>graphics_key := graphics_key c\<rparr>) =
     e\<lparr>graphics_key := graphics_key (finish_key B regs skip c)\<rparr>"
  by (simp add: finish_key_def Let_def)

lemma same_key [simp]: "graphics_key e = k \<Longrightarrow> e\<lparr>graphics_key := k\<rparr> = e"
  by auto

text \<open>A refresh run again, on a cache that holds what the first refresh left.\<close>

lemma RefreshGraphicsKey_again:
  assumes contract: "binding_contract B nb" and ok: "cache_ok nb c"
      and first: "RefreshGraphicsKey B regs c = Inr (ok', c')"
      and e: "program_cache e = program_cache c'" "vk_instance e = vk_instance c'"
        "infos e = infos c'" "modules e = modules c'" "graphics_key e = graphics_key c'"
  shows "RefreshGraphicsKey B regs e = Inr (ok', e)" and "cache_ok nb c'"
proof -
  let ?skip = "color_control_mode regs = Disable"
  let ?k0 = "first_pass B regs ?skip [0 ..< NumColorBuffers B] 0
              (fill_color_arrays B (populate_fixed_state B regs (zero_key B)))"
  from first obtain c1 where
    loop: "stage_loop B regs [0 ..< MaxShaderStages B] 0 (c\<lparr>graphics_key := ?k0\<rparr>) = Inr (ok', c1)"
    and c': "c' = (if ok' then finish_key B regs ?skip c1 else c1)"
    by (rule RefreshGraphicsKey_cases)
  have ok0: "cache_ok nb (c\<lparr>graphics_key := ?k0\<rparr>)" using ok by (simp add: cache_ok_def)
  have ok1: "cache_ok nb c1" by (rule stage_loop_cache_ok [OF contract loop ok0])
  then show "cache_ok nb c'" using c' by (simp add: cache_ok_def)
  have inst: "vk_instance c1 = vk_instance c"
    using arg_cong [OF stage_loop_loop_frame [OF loop], of vk_instance] by simp
  have "stage_loop B regs [0 ..< MaxShaderStages B] 0 (e\<lparr>graphics_key := ?k0\<rparr>) =
          Inr (ok', (e\<lparr>graphics_key := ?k0\<rparr>)\<lparr>graphics_key := graphics_key c1\<rparr>)"
  proof (rule stage_loop_replay [OF contract loop ok0])
    show "distinct [0 ..< MaxShaderStages B]" by simp
    show "cache_le (program_cache c1) (program_cache (e\<lparr>graphics_key := ?k0\<rparr>))"
      using e(1) c' by (simp add: cache_le_refl)
    show "vk_instance (e\<lparr>graphics_key := ?k0\<rparr>) = vk_instance (c\<lparr>graphics_key := ?k0\<rparr>)"
      using e(2) c' inst by simp
    show "graphics_key (e\<lparr>graphics_key := ?k0\<rparr>) = graphics_key (c\<lparr>graphics_key := ?k0\<rparr>)"
      by simp
    show "infos (e\<lparr>graphics_key := ?k0\<rparr>) = infos c1" using e(3) c' by simp
    show "modules (e\<lparr>graphics_key := ?k0\<rparr>) = modules c1" using e(4) c' by simp
  qed
  then have again: "stage_loop B regs [0 ..< MaxShaderStages B] 0 (e\<lparr>graphics_key := ?k0\<rparr>) =
          Inr (ok', e\<lparr>graphics_key := graphics_key c1\<rparr>)"
    by simp
  show "RefreshGraphicsKey B regs e = Inr (ok', e)"
  proof (cases ok')
    case True
    have "infos e = infos c1" using e(3) c' True by simp
    from finish_key_cong [OF this, of B regs ?skip] e(5) c' True
    have "finish_key B regs ?skip (e\<lparr>graphics_key := graphics_key c1\<rparr>) = e" by simp
    with again True show ?thesis by (simp add: RefreshGraphicsKey_def Let_def)
  next
    case False
    with e(5) c' have "e\<lparr>graphics_key := graphics_key c1\<rparr> = e" by simp
    with again False show ?thesis by (simp add: RefreshGraphicsKey_def Let_def)
  qed
qed

lemma emplace_graphics_frame:
  assumes "emplace_graphics c = (r, c')"
  shows "program_cache c' = program_cache c" "vk_instance c' = vk_instance c"
    "infos c' = infos c" "modules c' = modules c" "graphics_key c' = graphics_key c"
    "graphics_pipelines c' (graphics_key c) = r" "r \<noteq> None"
proof -
  show "program_cache c' = program_cache c" "vk_instance c' = vk_instance c"
    "infos c' = infos c" "modules c' = modules c" "graphics_key c' = graphics_key c"
    using assms by (auto simp: emplace_graphics_def Let_def split: option.splits)
  show "graphics_pipelines c' (graphics_key c) = r" "r \<noteq> None"
  proof (atomize (full), cases "graphics_pipelines c (graphics_key c)")
    case None
    with assms show "graphics_pipelines c' (graphics_key c) = r \<and> r \<noteq> None"
      by (auto simp: emplace_graphics_def Let_def)
  next
    case (Some p)
    with assms have "r = Some p" "c' = c" by (auto simp: emplace_graphics_def)
    with Some show "graphics_pipelines c' (graphics_key c) = r \<and> r \<noteq> None" by simp
  qed
qed

lemma emplace_graphics_again:
  assumes "emplace_graphics c = (r, c')"
  shows "emplace_graphics c' = (r, c')"
proof -
  note fr = emplace_graphics_frame [OF assms]
  from fr(7) obtain p where "r = Some p" by auto
  with fr(5,6) show ?thesis by (simp add: emplace_graphics_def)
qed

lemma GetGraphicsPipeline_same_regs:
  assumes "Regs.truncate (S1\<lparr>cs_program := cs_program S2\<rparr>) = Regs.truncate S2"
  shows "GetGraphicsPipeline B S2 c = GetGraphicsPipeline B S1 c"
proof -
  have "RefreshGraphicsKey B S2 c = RefreshGraphicsKey B (Regs.truncate S2) c"
    by (simp add: RefreshGraphicsKey_truncate)
  also have "\<dots> = RefreshGraphicsKey B (Regs.truncate (S1\<lparr>cs_program := cs_program S2\<rparr>)) c"
    using assms by simp
  also have "\<dots> = RefreshGraphicsKey B S1 c"
    by (simp add: RefreshGraphicsKey_truncate RefreshGraphicsKey_cs)
  finally have r: "RefreshGraphicsKey B S2 c = RefreshGraphicsKey B S1 c" .
  have "primitive_type (Regs.truncate (S1\<lparr>cs_program := cs_program S2\<rparr>)) = primitive_type S1"
    "color_control_mode (Regs.truncate (S1\<lparr>cs_program := cs_program S2\<rparr>)) = color_control_mode S1"
    "primitive_type (Regs.truncate S2) = primitive_type S2"
    "color_control_mode (Regs.truncate S2) = color_control_mode S2"
    by (simp_all add: Regs.truncate_def)
  with assms have "primitive_type S2 = primitive_type S1"
    "color_control_mode S2 = color_control_mode S1" by simp_all
  with r show ?thesis by (simp add: GetGraphicsPipeline_def)
qed

text \<open>
  Claim C4, under the contract between the translator and the cache (the emitter advances
  the binding cursor by the number of bindings the translated info reports, a number fixed by
  the content hash; \<^verbatim>\<open>GetProgram\<close> relies on it when it advances the cursor by
  \<^verbatim>\<open>NumBindings\<close> on a match) and on a cache whose programs respect it, as a new cache does.
  A draw made again with no change to any register field the draw reads returns the same
  pointer (or null again) and leaves the cache exactly as the first call left it: every
  \<^verbatim>\<open>GetProgram\<close> lookup finds its permutation, no module is compiled, no pipeline is built.
\<close>

theorem C4_draw_again:
  assumes contract: "binding_contract B nb" and ok: "cache_ok nb c"
      and same: "Regs.truncate (S1\<lparr>cs_program := cs_program S2\<rparr>) = Regs.truncate S2"
      and first: "GetGraphicsPipeline B S1 c = Inr (r, c1)"
  shows "GetGraphicsPipeline B S2 c1 = Inr (r, c1) \<and> cache_ok nb c1"
proof -
  consider (early) "r = None" "c1 = c"
      "primitive_type S1 = PatchPrimitive \<or> color_control_mode S1 = EliminateFastClear
       \<or> color_control_mode S1 = FmaskDecompress \<or> primitive_type S1 = PrimitiveType_None"
    | (failed) "r = None" "RefreshGraphicsKey B S1 c = Inr (False, c1)"
      "\<not> (primitive_type S1 = PatchPrimitive \<or> color_control_mode S1 = EliminateFastClear
       \<or> color_control_mode S1 = FmaskDecompress \<or> primitive_type S1 = PrimitiveType_None)"
    | (built) c2 where "RefreshGraphicsKey B S1 c = Inr (True, c2)" "emplace_graphics c2 = (r, c1)"
      "\<not> (primitive_type S1 = PatchPrimitive \<or> color_control_mode S1 = EliminateFastClear
       \<or> color_control_mode S1 = FmaskDecompress \<or> primitive_type S1 = PrimitiveType_None)"
    using first
    by (auto simp: GetGraphicsPipeline_def split: if_splits sum.splits prod.splits bool.splits)
  then have "GetGraphicsPipeline B S1 c1 = Inr (r, c1) \<and> cache_ok nb c1"
  proof cases
    case early
    with ok show ?thesis by (auto simp: GetGraphicsPipeline_def)
  next
    case failed
    from RefreshGraphicsKey_again [OF contract ok failed(2), of c1] failed(1,3)
    show ?thesis by (simp add: GetGraphicsPipeline_def)
  next
    case (built c2)
    note fr = emplace_graphics_frame [OF built(2)]
    from RefreshGraphicsKey_again [OF contract ok built(1) fr(1-5)]
    have "RefreshGraphicsKey B S1 c1 = Inr (True, c1)" "cache_ok nb c2" by simp_all
    moreover have "cache_ok nb c1" using \<open>cache_ok nb c2\<close> fr(1) by (simp add: cache_ok_def)
    ultimately show ?thesis
      using built(3) emplace_graphics_again [OF built(2)] by (simp add: GetGraphicsPipeline_def)
  qed
  then show ?thesis using GetGraphicsPipeline_same_regs [OF same, of B c1] by simp
qed

theorem C4_draw_again_witness:
  "binding_contract demo_build demo_bindings
   \<and> cache_ok demo_bindings demo_cache
   \<and> Regs.truncate (draw_regs\<lparr>cs_program := cs_program draw_regs\<rparr>) = Regs.truncate draw_regs
   \<and> \<not> isl (GetGraphicsPipeline demo_build draw_regs demo_cache)
   \<and> fst (projr (GetGraphicsPipeline demo_build draw_regs demo_cache)) = Some 0
   \<and> perm_count (snd (projr (GetGraphicsPipeline demo_build draw_regs demo_cache))) 0xf5 = 1
   \<and> perm_count (snd (projr (GetGraphicsPipeline demo_build draw_regs demo_cache))) 0xa2 = 1
   \<and> GetGraphicsPipeline demo_build draw_regs
        (snd (projr (GetGraphicsPipeline demo_build draw_regs demo_cache)))
      = Inr (Some 0, snd (projr (GetGraphicsPipeline demo_build draw_regs demo_cache)))"
proof -
  let ?g = "GetGraphicsPipeline demo_build draw_regs demo_cache"
  have contract: "binding_contract demo_build demo_bindings"
    by (simp add: binding_contract_def CompileModule_def demo_build_def demo_bindings_def
          of_nat_unat)
  have ok: "cache_ok demo_bindings demo_cache" by (simp add: cache_ok_def)
  have same: "Regs.truncate (draw_regs\<lparr>cs_program := cs_program draw_regs\<rparr>) = Regs.truncate draw_regs"
    by simp
  have run: "\<not> isl ?g" by code_simp
  have p: "fst (projr ?g) = Some 0" by code_simp
  have n: "perm_count (snd (projr ?g)) 0xf5 = 1" "perm_count (snd (projr ?g)) 0xa2 = 1"
    by code_simp+
  from run p have first: "?g = Inr (Some 0, snd (projr ?g))" by (cases ?g) auto
  show ?thesis
    using C4_draw_again [OF contract ok same first] contract ok same run p n by simp
qed

section \<open>The second pass and the write masks\<close>

lemma second_pass_write_masks:
  "r + length (filter (survives regs skip (mrt_mask key)) cbs) \<le> length (write_masks key) \<Longrightarrow>
     write_masks (second_pass regs skip cbs r key) =
       take r (write_masks key)
       @ map (color_target_mask regs) (filter (survives regs skip (mrt_mask key)) cbs)
       @ drop (r + length (filter (survives regs skip (mrt_mask key)) cbs)) (write_masks key)"
proof (induction cbs arbitrary: r key)
  case Nil
  then show ?case by simp
next
  case (Cons cb cbs)
  show ?case
  proof (cases "survives regs skip (mrt_mask key) cb")
    case False
    let ?key = "key\<lparr>color_formats := (color_formats key)[cb := eUndefined],
                     mrt_swizzles := (mrt_swizzles key)[cb := Standard]\<rparr>"
    from False have step: "second_pass regs skip (cb # cbs) r key = second_pass regs skip cbs r ?key"
      by (auto simp: survives_def Let_def)
    from Cons.prems False have
      "r + length (filter (survives regs skip (mrt_mask ?key)) cbs) \<le> length (write_masks ?key)"
      by simp
    from Cons.IH [OF this] False show ?thesis unfolding step by simp
  next
    case True
    let ?key = "key\<lparr>blend_controls := (blend_controls key)
                      [r := (blend_control regs cb)
                         \<lparr>enable := (enable (blend_control regs cb) \<and>
                                      \<not> info_blend_bypass (color_buffers regs cb))\<rparr>],
                     write_masks := (write_masks key)[r := color_target_mask regs cb],
                     cb_shader_mask := (cb_shader_mask key)[r := color_shader_mask regs cb]\<rparr>"
    from Cons.prems True have r: "r < length (write_masks key)" by simp
    have bl: "(blend_controls key)
         [r := ((blend_controls key)[r := blend_control regs cb] ! r)
            \<lparr>enable := (enable ((blend_controls key)[r := blend_control regs cb] ! r) \<and>
                         \<not> info_blend_bypass (color_buffers regs cb))\<rparr>] =
         (blend_controls key)
         [r := (blend_control regs cb)
            \<lparr>enable := (enable (blend_control regs cb) \<and>
                         \<not> info_blend_bypass (color_buffers regs cb))\<rparr>]"
      by (cases "r < length (blend_controls key)") (simp_all add: list_update_beyond)
    from True have step: "second_pass regs skip (cb # cbs) r key = second_pass regs skip cbs (Suc r) ?key"
      by (auto simp: survives_def Let_def bl)
    from Cons.prems True have
      "Suc r + length (filter (survives regs skip (mrt_mask ?key)) cbs) \<le> length (write_masks ?key)"
      by simp
    from Cons.IH [OF this] True r show ?thesis
      unfolding step by (simp add: take_Suc_conv_app_nth)
  qed
qed


lemma write_masks_first_pass [simp]:
  "write_masks (first_pass B regs skip cbs r key) = write_masks key"
  by (induction cbs arbitrary: r key skip) (simp_all add: Let_def)

lemma sans_hashes_write_masks [simp]: "write_masks (sans_hashes key) = write_masks key"
  by (simp add: sans_hashes_def)

text \<open>
  After a successful refresh the write masks are those of the surviving slots (bound,
  unmasked and referenced by the fragment stage), packed to the left in slot order, and zero
  behind them: the second pass packs this array at the compacted index.
\<close>

lemma RefreshGraphicsKey_write_masks:
  assumes "RefreshGraphicsKey B regs c = Inr (True, c')"
  defines "sv \<equiv> filter (survives regs (color_control_mode regs = Disable)
                            (mrt_mask (graphics_key c'))) [0 ..< NumColorBuffers B]"
  shows "write_masks (graphics_key c') =
           map (color_target_mask regs) sv @ replicate (NumColorBuffers B - length sv) 0"
proof -
  let ?skip = "color_control_mode regs = Disable"
  from assms(1) obtain c1 where
    loop: "stage_loop B regs [0 ..< MaxShaderStages B] 0
       (c\<lparr>graphics_key := first_pass B regs ?skip [0 ..< NumColorBuffers B] 0
             (fill_color_arrays B (populate_fixed_state B regs (zero_key B)))\<rparr>) = Inr (True, c1)"
    and c': "c' = finish_key B regs ?skip c1"
    by (rule RefreshGraphicsKey_cases) simp
  have "write_masks (graphics_key (loop_frame c1)) = replicate (NumColorBuffers B) 0"
    unfolding stage_loop_loop_frame [OF loop] by (simp add: fill_color_arrays_def)
  then have w: "write_masks (graphics_key c1) = replicate (NumColorBuffers B) 0" by simp
  let ?key = "(graphics_key c1)\<lparr>mrt_mask :=
                 (case infos c1 ! Stage_u32 B Fragment of Some i \<Rightarrow> info_mrt_mask i | None \<Rightarrow> 0)\<rparr>"
  have k: "graphics_key c' = second_pass regs ?skip [0 ..< NumColorBuffers B] 0 ?key"
    using c' by (simp add: finish_key_def Let_def)
  have m: "mrt_mask (graphics_key c') = mrt_mask ?key" unfolding k by simp
  have len: "length sv \<le> NumColorBuffers B"
    unfolding sv_def using length_filter_le [of _ "[0 ..< NumColorBuffers B]"] by simp
  have "0 + length (filter (survives regs ?skip (mrt_mask ?key)) [0 ..< NumColorBuffers B])
          \<le> length (write_masks ?key)"
    using len w by (simp add: sv_def m)
  from second_pass_write_masks [OF this] show ?thesis
    unfolding k [symmetric] sv_def m using w by simp
qed

end
